theory Spec2Isabelle
  imports Complex_Main "HOL-Library.Multiset" "HOL-Library.Product_Lexorder"
begin

section \<open>JavaScript values\<close>

text \<open>
  The aggregation engine of \<^verbatim>\<open>src/week5/src/core/statistics.js\<close> works on JavaScript
  numbers and on loosely typed records. A number is modelled by the rational it denotes,
  or by one of the three non-finite values. The rounding of an arithmetic result to the
  nearest double is not modelled; what is modelled is the overflow of a result to an
  infinity, because the code tests finiteness everywhere. The two zeros \<open>+0\<close> and \<open>-0\<close>
  are one value (\<open>-0 === 0\<close> holds in the language).
\<close>

datatype num = Fin rat | PInf | NInf | NaN

text \<open>
  A value at or beyond \<open>2^1024 - 2^970\<close> in magnitude rounds to an infinity: that bound
  is halfway between the largest finite double and \<open>2^1024\<close>.
\<close>

definition overflow_bound :: rat where
  "overflow_bound = 2 ^ 1024 - 2 ^ 970"

definition dbl :: "rat \<Rightarrow> num" where
  "dbl q = (if overflow_bound \<le> q then PInf
            else if q \<le> - overflow_bound then NInf
            else Fin q)"

text \<open>The values a record, or an element of the input array, can be.\<close>

datatype jsval =
    JUndefined
  | JNull
  | JBool bool
  | JNum num
  | JStr string
  | JArr "jsval list"
  | JObj "(string \<times> jsval) list"

text \<open>\<^verbatim>\<open>Number.isFinite(v)\<close>: true for a finite number only, false for every other value.\<close>

fun number_isFinite :: "jsval \<Rightarrow> bool" where
  "number_isFinite (JNum (Fin q)) = True"
| "number_isFinite v = False"

fun is_fin :: "num \<Rightarrow> bool" where
  "is_fin (Fin q) = True"
| "is_fin n = False"

fun the_fin :: "num \<Rightarrow> rat" where
  "the_fin (Fin q) = q"
| "the_fin n = 0"

subsection \<open>Arithmetic on numbers\<close>

text \<open>\<^verbatim>\<open>a + b\<close>, \<^verbatim>\<open>a * b\<close> and \<^verbatim>\<open>a / b\<close> on numbers, with the special values of IEEE 754.\<close>

fun num_add :: "num \<Rightarrow> num \<Rightarrow> num" where
  "num_add NaN b = NaN"
| "num_add a NaN = NaN"
| "num_add PInf NInf = NaN"
| "num_add NInf PInf = NaN"
| "num_add PInf b = PInf"
| "num_add a PInf = PInf"
| "num_add NInf b = NInf"
| "num_add a NInf = NInf"
| "num_add (Fin a) (Fin b) = dbl (a + b)"

definition inf_of_sign :: "rat \<Rightarrow> num" where
  "inf_of_sign s = (if s = 0 then NaN else if 0 < s then PInf else NInf)"

fun inf_sign :: "num \<Rightarrow> rat" where
  "inf_sign PInf = 1"
| "inf_sign NInf = - 1"
| "inf_sign (Fin q) = sgn q"
| "inf_sign NaN = 0"

fun num_mul :: "num \<Rightarrow> num \<Rightarrow> num" where
  "num_mul NaN b = NaN"
| "num_mul a NaN = NaN"
| "num_mul (Fin a) (Fin b) = dbl (a * b)"
| "num_mul a b = inf_of_sign (inf_sign a * inf_sign b)"

text \<open>
  Division. The divisors of this program are powers of ten and divisors checked to be
  non-zero, so the sign of a zero divisor never matters; a zero divisor is taken as \<open>+0\<close>.
\<close>

fun num_div :: "num \<Rightarrow> num \<Rightarrow> num" where
  "num_div NaN b = NaN"
| "num_div a NaN = NaN"
| "num_div (Fin a) (Fin b) =
     (if b = 0 then inf_of_sign (sgn a) else dbl (a / b))"
| "num_div (Fin a) b = Fin 0"
| "num_div a (Fin b) = inf_of_sign (inf_sign a * (if b < 0 then - 1 else 1))"
| "num_div a b = NaN"

text \<open>
  \<^verbatim>\<open>Math.round(x)\<close>: the integer nearest to \<open>x\<close>, a tie going to the larger one
  (towards \<open>+\<infinity>\<close>); the non-finite values are returned as they are.
\<close>

fun math_round :: "num \<Rightarrow> num" where
  "math_round (Fin q) = dbl (of_int \<lfloor>q + 1 / 2\<rfloor>)"
| "math_round n = n"

text \<open>\<^verbatim>\<open>Math.pow(10, p)\<close> for a digit count \<open>p\<close>.\<close>

definition math_pow10 :: "nat \<Rightarrow> num" where
  "math_pow10 p = dbl (10 ^ p)"

text \<open>
  \<^verbatim>\<open>Math.max(...xs)\<close> and \<^verbatim>\<open>Math.min(...xs)\<close>: \<open>-Infinity\<close> and \<open>+Infinity\<close> with no
  argument, \<open>NaN\<close> as soon as one argument is \<open>NaN\<close>.
\<close>

fun num_le :: "num \<Rightarrow> num \<Rightarrow> bool" where
  "num_le NInf b = True"
| "num_le a PInf = True"
| "num_le (Fin a) (Fin b) = (a \<le> b)"
| "num_le a b = False"

definition max2 :: "num \<Rightarrow> num \<Rightarrow> num" where
  "max2 a b = (if a = NaN \<or> b = NaN then NaN else if num_le a b then b else a)"

definition min2 :: "num \<Rightarrow> num \<Rightarrow> num" where
  "min2 a b = (if a = NaN \<or> b = NaN then NaN else if num_le a b then a else b)"

definition math_max :: "num list \<Rightarrow> num" where
  "math_max xs = foldl max2 NInf xs"

definition math_min :: "num list \<Rightarrow> num" where
  "math_min xs = foldl min2 PInf xs"

section \<open>Precision arithmetic\<close>

text \<open>
  \<^verbatim>\<open>precisionHelper.round(num, precision = 6)\<close>: zero unless \<open>num\<close> is a finite number,
  otherwise scale, \<^verbatim>\<open>Math.round\<close>, scale back. The precision is a number of decimal
  digits, a natural number; the callers in the program pass none and get the default.
\<close>

definition precisionHelper_round :: "jsval \<Rightarrow> nat \<Rightarrow> num" where
  "precisionHelper_round v precision =
     (case v of
        JNum (Fin q) \<Rightarrow>
          num_div (math_round (num_mul (Fin q) (math_pow10 precision))) (math_pow10 precision)
      | _ \<Rightarrow> Fin 0)"

definition default_precision :: nat where
  "default_precision = 6"

text \<open>
  \<^verbatim>\<open>precisionHelper.add(a, b)\<close>: an operand that is not a finite number becomes 0, then
  the sum is rounded with the default precision.
\<close>

definition finite_or_zero :: "jsval \<Rightarrow> num" where
  "finite_or_zero v = (case v of JNum (Fin q) \<Rightarrow> Fin q | _ \<Rightarrow> Fin 0)"

definition precisionHelper_add :: "jsval \<Rightarrow> jsval \<Rightarrow> num" where
  "precisionHelper_add a b =
     precisionHelper_round (JNum (num_add (finite_or_zero a) (finite_or_zero b))) default_precision"

text \<open>
  \<^verbatim>\<open>precisionHelper.divide(a, b)\<close>: zero when an operand is not a finite number or the
  divisor is zero, otherwise the rounded quotient.
\<close>

definition precisionHelper_divide :: "jsval \<Rightarrow> jsval \<Rightarrow> num" where
  "precisionHelper_divide a b =
     (case (a, b) of
        (JNum (Fin x), JNum (Fin y)) \<Rightarrow>
          (if y = 0 then Fin 0
           else precisionHelper_round (JNum (num_div (Fin x) (Fin y))) default_precision)
      | _ \<Rightarrow> Fin 0)"

section \<open>Statistical summarizer\<close>

text \<open>
  The calculators take an array of numbers. \<^verbatim>\<open>values.filter(Number.isFinite)\<close> keeps the
  finite entries; \<^verbatim>\<open>.sort((a, b) => a - b)\<close> on finite numbers is the ascending sort.
  Reading an array outside its range gives \<open>undefined\<close>.
\<close>

definition finite_entries :: "num list \<Rightarrow> num list" where
  "finite_entries values = filter is_fin values"

definition js_index :: "num list \<Rightarrow> int \<Rightarrow> jsval" where
  "js_index xs i = (if 0 \<le> i \<and> i < int (length xs) then JNum (xs ! nat i) else JUndefined)"

text \<open>
  The comparator \<^verbatim>\<open>(a, b) => a - b\<close> orders \<open>-Infinity\<close>, the finite numbers and
  \<open>+Infinity\<close> as expected and finds two equal infinities equal (their difference is
  \<open>NaN\<close>, which the sort reads as 0). The arrays sorted by this program hold no \<open>NaN\<close>;
  the key places it last.
\<close>

fun num_key :: "num \<Rightarrow> int \<times> rat" where
  "num_key NInf = (- 1, 0)"
| "num_key (Fin q) = (0, q)"
| "num_key PInf = (1, 0)"
| "num_key NaN = (2, 0)"

definition sort_numeric :: "num list \<Rightarrow> num list" where
  "sort_numeric xs = sort_key num_key xs"

text \<open>\<^verbatim>\<open>[...values].filter(Number.isFinite).sort((a, b) => a - b)\<close>\<close>

definition sorted_entries :: "num list \<Rightarrow> num list" where
  "sorted_entries values = sort_numeric (finite_entries values)"

definition statsCalculators_sum :: "num list \<Rightarrow> num" where
  "statsCalculators_sum values =
     foldl (\<lambda>acc val. precisionHelper_add (JNum acc) (JNum val)) (Fin 0) values"

definition statsCalculators_mean :: "num list \<Rightarrow> num" where
  "statsCalculators_mean values =
     (if length values = 0 then Fin 0
      else precisionHelper_divide (JNum (statsCalculators_sum values))
             (JNum (Fin (of_nat (length values)))))"

definition statsCalculators_max :: "num list \<Rightarrow> num" where
  "statsCalculators_max values =
     (if length values = 0 then Fin 0 else math_max (finite_entries values))"

definition statsCalculators_min :: "num list \<Rightarrow> num" where
  "statsCalculators_min values =
     (if length values = 0 then Fin 0 else math_min (finite_entries values))"

definition statsCalculators_median :: "num list \<Rightarrow> num" where
  "statsCalculators_median values =
     (if length values = 0 then Fin 0
      else
        let sorted = sorted_entries values;
            mid = int (length sorted) div 2
        in if length sorted mod 2 = 0
           then precisionHelper_divide
                  (JNum (precisionHelper_add (js_index sorted (mid - 1)) (js_index sorted mid)))
                  (JNum (Fin 2))
           else sorted ! nat mid)"

record summary =
  s_sum :: num
  s_mean :: num
  s_max :: num
  s_min :: num
  s_median :: num
  s_count :: nat

definition createStatsSummary :: "num list \<Rightarrow> summary" where
  "createStatsSummary values =
     \<lparr> s_sum = statsCalculators_sum values,
       s_mean = statsCalculators_mean values,
       s_max = statsCalculators_max values,
       s_min = statsCalculators_min values,
       s_median = statsCalculators_median values,
       s_count = length values \<rparr>"

section \<open>Conversions between values\<close>

subsection \<open>Text of a number\<close>

definition digit_char :: "nat \<Rightarrow> char" where
  "digit_char d = ''0123456789'' ! d"

fun show_nat :: "nat \<Rightarrow> string" where
  "show_nat n = (if n < 10 then [digit_char n] else show_nat (n div 10) @ [digit_char (n mod 10)])"

declare show_nat.simps [simp del]

definition show_int :: "int \<Rightarrow> string" where
  "show_int i = (if i < 0 then CHR ''-'' # show_nat (nat (- i)) else show_nat (nat i))"

text \<open>
  The text of a number, as a template literal or a property name shows it. An integer
  below \<open>10^21\<close> in magnitude is written with all its digits. For any other finite number
  the language prints the shortest decimal text that reads back as the same double, which
  a model on rationals cannot determine: that text is the parameter \<open>txt\<close>, and every
  theorem below holds for every choice of it.
\<close>

definition number_to_string :: "(rat \<Rightarrow> string) \<Rightarrow> num \<Rightarrow> string" where
  "number_to_string txt n =
     (case n of
        NaN \<Rightarrow> ''NaN''
      | PInf \<Rightarrow> ''Infinity''
      | NInf \<Rightarrow> ''-Infinity''
      | Fin q \<Rightarrow>
          if q = of_int \<lfloor>q\<rfloor> \<and> \<bar>q\<bar> < 10 ^ 21 then show_int \<lfloor>q\<rfloor> else txt q)"

fun join_comma :: "string list \<Rightarrow> string" where
  "join_comma [] = []"
| "join_comma [s] = s"
| "join_comma (s # t # ts) = s @ '','' @ join_comma (t # ts)"

text \<open>
  \<^verbatim>\<open>String(v)\<close>. An array is the texts of its elements joined by commas, \<open>null\<close> and
  \<open>undefined\<close> elements giving the empty text; a plain object is \<^verbatim>\<open>[object Object]\<close>.
\<close>

fun to_string :: "(rat \<Rightarrow> string) \<Rightarrow> jsval \<Rightarrow> string" where
  "to_string txt JUndefined = ''undefined''"
| "to_string txt JNull = ''null''"
| "to_string txt (JBool b) = (if b then ''true'' else ''false'')"
| "to_string txt (JNum n) = number_to_string txt n"
| "to_string txt (JStr s) = s"
| "to_string txt (JArr xs) =
     join_comma (map (\<lambda>x. if x = JNull \<or> x = JUndefined then [] else to_string txt x) xs)"
| "to_string txt (JObj kvs) = ''[object Object]''"

subsection \<open>Number of a text\<close>

text \<open>
  \<^verbatim>\<open>Number(s)\<close> on a string: white space around the text is dropped; the empty text is 0;
  otherwise the text must be a decimal literal with an optional sign (digits, an optional
  fraction, an optional exponent, or \<^verbatim>\<open>Infinity\<close>) or an unsigned binary, octal or
  hexadecimal integer literal; any other text is \<open>NaN\<close>. The characters of a string are
  the code units below 256, of which seven are white space or line ends.
\<close>

definition is_ws :: "char \<Rightarrow> bool" where
  "is_ws c \<longleftrightarrow>
     c \<in> set [CHR '' '', CHR 0x09, CHR 0x0A, CHR 0x0B, CHR 0x0C, CHR 0x0D, CHR 0xA0]"

definition trim :: "string \<Rightarrow> string" where
  "trim s = rev (dropWhile is_ws (rev (dropWhile is_ws s)))"

definition hex_value :: "char \<Rightarrow> nat option" where
  "hex_value c =
     map_of
       [(CHR ''0'', 0), (CHR ''1'', 1), (CHR ''2'', 2), (CHR ''3'', 3), (CHR ''4'', 4),
        (CHR ''5'', 5), (CHR ''6'', 6), (CHR ''7'', 7), (CHR ''8'', 8), (CHR ''9'', 9),
        (CHR ''a'', 10), (CHR ''b'', 11), (CHR ''c'', 12), (CHR ''d'', 13), (CHR ''e'', 14),
        (CHR ''f'', 15), (CHR ''A'', 10), (CHR ''B'', 11), (CHR ''C'', 12), (CHR ''D'', 13),
        (CHR ''E'', 14), (CHR ''F'', 15)] c"

definition digit_in :: "nat \<Rightarrow> char \<Rightarrow> bool" where
  "digit_in base c = (case hex_value c of Some d \<Rightarrow> d < base | None \<Rightarrow> False)"

definition digits_value :: "nat \<Rightarrow> string \<Rightarrow> nat" where
  "digits_value base ds = foldl (\<lambda>acc c. acc * base + the (hex_value c)) 0 ds"

definition scale10 :: "rat \<Rightarrow> int \<Rightarrow> rat" where
  "scale10 m k = (if 0 \<le> k then m * 10 ^ nat k else m / 10 ^ nat (- k))"

text \<open>The exponent part of a decimal literal: nothing, or \<open>e\<close>, an optional sign and digits.\<close>

definition exponent_part :: "string \<Rightarrow> int option" where
  "exponent_part s =
     (case s of
        [] \<Rightarrow> Some 0
      | c # r \<Rightarrow>
          if c = CHR ''e'' \<or> c = CHR ''E'' then
            (let (neg, ds) =
               (case r of
                  [] \<Rightarrow> (False, [])
                | d # r' \<Rightarrow>
                    if d = CHR ''-'' then (True, r')
                    else if d = CHR ''+'' then (False, r') else (False, r))
             in if ds \<noteq> [] \<and> list_all (digit_in 10) ds
                then Some (if neg then - int (digits_value 10 ds) else int (digits_value 10 ds))
                else None)
          else None)"

definition unsigned_decimal :: "string \<Rightarrow> num" where
  "unsigned_decimal s =
     (if s = ''Infinity'' then PInf
      else
        let ip = takeWhile (digit_in 10) s;
            r = dropWhile (digit_in 10) s;
            dot = (r \<noteq> [] \<and> hd r = CHR ''.'');
            fp = (if dot then takeWhile (digit_in 10) (tl r) else []);
            r' = (if dot then dropWhile (digit_in 10) (tl r) else r)
        in if ip = [] \<and> fp = [] then NaN
           else
             (case exponent_part r' of
                None \<Rightarrow> NaN
              | Some e \<Rightarrow>
                  dbl (scale10 (of_nat (digits_value 10 (ip @ fp))) (e - int (length fp)))))"

definition num_neg :: "num \<Rightarrow> num" where
  "num_neg n = (case n of Fin q \<Rightarrow> Fin (- q) | PInf \<Rightarrow> NInf | NInf \<Rightarrow> PInf | NaN \<Rightarrow> NaN)"

definition radix_literal :: "string \<Rightarrow> num option" where
  "radix_literal s =
     (case s of
        z # x # ds \<Rightarrow>
          if z = CHR ''0'' then
            (let base =
               (if x = CHR ''x'' \<or> x = CHR ''X'' then 16
                else if x = CHR ''o'' \<or> x = CHR ''O'' then 8
                else if x = CHR ''b'' \<or> x = CHR ''B'' then 2 else 0)
             in if base = 0 then None
                else if ds \<noteq> [] \<and> list_all (digit_in base) ds
                then Some (dbl (of_nat (digits_value base ds)))
                else Some NaN)
          else None
      | _ \<Rightarrow> None)"

definition string_to_number :: "string \<Rightarrow> num" where
  "string_to_number str =
     (let s = trim str
      in if s = [] then Fin 0
         else
           (case radix_literal s of
              Some n \<Rightarrow> n
            | None \<Rightarrow>
                if hd s = CHR ''-'' then num_neg (unsigned_decimal (tl s))
                else if hd s = CHR ''+'' then unsigned_decimal (tl s)
                else unsigned_decimal s))"

text \<open>
  \<^verbatim>\<open>Number(v)\<close>. An array is converted through its text: the empty array is 0, an
  array of two or more elements has a comma in its text and is \<open>NaN\<close>, and an array of
  one element is the number of that element's text (a number prints and reads back as
  itself). A plain object is \<open>NaN\<close>.
\<close>

fun to_number :: "jsval \<Rightarrow> num" where
  "to_number JUndefined = NaN"
| "to_number JNull = Fin 0"
| "to_number (JBool b) = Fin (if b then 1 else 0)"
| "to_number (JNum n) = n"
| "to_number (JStr s) = string_to_number s"
| "to_number (JObj kvs) = NaN"
| "to_number (JArr []) = Fin 0"
| "to_number (JArr [JUndefined]) = Fin 0"
| "to_number (JArr [JNull]) = Fin 0"
| "to_number (JArr [JBool b]) = NaN"
| "to_number (JArr [JNum n]) = n"
| "to_number (JArr [JStr s]) = string_to_number s"
| "to_number (JArr [JObj kvs]) = NaN"
| "to_number (JArr [JArr ys]) = to_number (JArr ys)"
| "to_number (JArr (x # y # zs)) = NaN"

section \<open>Record validator\<close>

text \<open>
  The failures of the engine: the two errors it throws itself (the input is not an array;
  no record is left after validation), and the language's \<open>TypeError\<close>, thrown when a
  property of \<open>null\<close> or \<open>undefined\<close> is read or a value that is not a function is called.
\<close>

datatype error = TypeError | DataNotArray | NoValidRecords

text \<open>
  An object is the list of its own properties, with distinct names; inherited properties
  are not modelled. \<^verbatim>\<open>item.hasOwnProperty(field)\<close> reads the property \<open>hasOwnProperty\<close> of
  the item and calls it: on \<open>null\<close> and \<open>undefined\<close> the read throws; on an object with
  an own property of that name the call throws, since no value of \<^typ>\<open>jsval\<close> is a
  function; otherwise the inherited method answers. The own properties of an array or of
  a string are \<open>length\<close> and the indices.
\<close>

definition index_names :: "nat \<Rightarrow> string list" where
  "index_names n = map show_nat [0 ..< n]"

fun hasOwnProperty :: "jsval \<Rightarrow> string \<Rightarrow> error + bool" where
  "hasOwnProperty JUndefined field = Inl TypeError"
| "hasOwnProperty JNull field = Inl TypeError"
| "hasOwnProperty (JBool b) field = Inr False"
| "hasOwnProperty (JNum n) field = Inr False"
| "hasOwnProperty (JStr s) field =
     Inr (field = ''length'' \<or> field \<in> set (index_names (length s)))"
| "hasOwnProperty (JArr xs) field =
     Inr (field = ''length'' \<or> field \<in> set (index_names (length xs)))"
| "hasOwnProperty (JObj kvs) field =
     (if ''hasOwnProperty'' \<in> set (map fst kvs) then Inl TypeError
      else Inr (field \<in> set (map fst kvs)))"

text \<open>\<^verbatim>\<open>item[field]\<close>, read only after the test above has answered.\<close>

fun get_prop :: "jsval \<Rightarrow> string \<Rightarrow> jsval" where
  "get_prop (JObj kvs) field = (case map_of kvs field of Some v \<Rightarrow> v | None \<Rightarrow> JUndefined)"
| "get_prop (JArr xs) field =
     (if field = ''length'' then JNum (Fin (of_nat (length xs)))
      else case find (\<lambda>i. show_nat i = field) [0 ..< length xs] of
             Some i \<Rightarrow> xs ! i
           | None \<Rightarrow> JUndefined)"
| "get_prop (JStr s) field =
     (if field = ''length'' then JNum (Fin (of_nat (length s)))
      else case find (\<lambda>i. show_nat i = field) [0 ..< length s] of
             Some i \<Rightarrow> JStr [s ! i]
           | None \<Rightarrow> JUndefined)"
| "get_prop v field = JUndefined"

definition requiredFields :: "string list" where
  "requiredFields = [''id'', ''region'', ''resource'', ''year'', ''value'', ''weight'']"

definition numericFields :: "string list" where
  "numericFields = [''year'', ''value'', ''weight'']"

text \<open>\<^verbatim>\<open>fields.every(p)\<close> for a test that may throw: it stops at the first \<open>false\<close>.\<close>

fun every :: "(string \<Rightarrow> error + bool) \<Rightarrow> string list \<Rightarrow> error + bool" where
  "every p [] = Inr True"
| "every p (f # fs) =
     (case p f of
        Inl e \<Rightarrow> Inl e
      | Inr b \<Rightarrow> if b then every p fs else Inr False)"

definition field_present :: "jsval \<Rightarrow> string \<Rightarrow> error + bool" where
  "field_present item field =
     (case hasOwnProperty item field of
        Inl e \<Rightarrow> Inl e
      | Inr b \<Rightarrow>
          Inr (b \<and> get_prop item field \<noteq> JNull \<and> get_prop item field \<noteq> JUndefined))"

definition field_numeric :: "jsval \<Rightarrow> string \<Rightarrow> error + bool" where
  "field_numeric item field = Inr (is_fin (to_number (get_prop item field)))"

text \<open>The test of \<^verbatim>\<open>data.filter\<close> in \<^verbatim>\<open>validateAndCleanData\<close>.\<close>

definition keep_item :: "jsval \<Rightarrow> error + bool" where
  "keep_item item =
     (case every (field_present item) requiredFields of
        Inl e \<Rightarrow> Inl e
      | Inr hasAllFields \<Rightarrow>
          if \<not> hasAllFields then Inr False
          else every (field_numeric item) numericFields)"

text \<open>\<^verbatim>\<open>array.filter(p)\<close> for a test that may throw: the first throw ends the call.\<close>

fun filter_js :: "(jsval \<Rightarrow> error + bool) \<Rightarrow> jsval list \<Rightarrow> error + jsval list" where
  "filter_js p [] = Inr []"
| "filter_js p (x # xs) =
     (case p x of
        Inl e \<Rightarrow> Inl e
      | Inr b \<Rightarrow>
          (case filter_js p xs of
             Inl e \<Rightarrow> Inl e
           | Inr ys \<Rightarrow> Inr (if b then x # ys else ys)))"

definition validateAndCleanData :: "jsval \<Rightarrow> error + jsval list" where
  "validateAndCleanData data =
     (case data of
        JArr xs \<Rightarrow> filter_js keep_item xs
      | _ \<Rightarrow> Inl DataNotArray)"

section \<open>Grouping index\<close>

text \<open>
  A \<^verbatim>\<open>Map\<close> is the list of its entries in insertion order. Its keys are compared by
  \<open>SameValueZero\<close>: two primitive values are the same key when they are equal; an array
  or an object is the same key only as itself, and the arrays and objects of the input
  are taken to be distinct from one another (as they are in a decoded document).
\<close>

fun same_value_zero :: "jsval \<Rightarrow> jsval \<Rightarrow> bool" where
  "same_value_zero (JArr xs) b = False"
| "same_value_zero (JObj kvs) b = False"
| "same_value_zero a b = (a = b)"

text \<open>
  \<^verbatim>\<open>if (!groups.has(key)) groups.set(key, []); groups.get(key).push(x)\<close>
\<close>

fun map_push :: "jsval \<Rightarrow> 'a \<Rightarrow> (jsval \<times> 'a list) list \<Rightarrow> (jsval \<times> 'a list) list" where
  "map_push key x [] = [(key, [x])]"
| "map_push key x ((k, b) # rest) =
     (if same_value_zero k key then (k, b @ [x]) # rest else (k, b) # map_push key x rest)"

definition performantGroupBy ::
  "jsval list \<Rightarrow> (jsval \<Rightarrow> jsval) \<Rightarrow> (jsval \<times> jsval list) list" where
  "performantGroupBy data keyExtractor =
     foldl (\<lambda>groups item. map_push (keyExtractor item) item groups) [] data"

text \<open>
  A result object is the list of its own properties in the order of their first
  assignment. (The language enumerates names that look like array indices before the
  others; no statement below depends on the order.) Every result object is created by
  \<^verbatim>\<open>{}\<close> and inherits the properties of \<^verbatim>\<open>Object.prototype\<close>, which is taken to
  hold its standard properties, and no other, when a call starts: eleven methods and the
  accessor \<^verbatim>\<open>__proto__\<close>.
\<close>

definition inherited_functions :: "string list" where
  "inherited_functions =
     [''constructor'', ''__defineGetter__'', ''__defineSetter__'', ''hasOwnProperty'',
      ''__lookupGetter__'', ''__lookupSetter__'', ''isPrototypeOf'', ''propertyIsEnumerable'',
      ''toString'', ''valueOf'', ''toLocaleString'']"

fun obj_set :: "string \<Rightarrow> 'v \<Rightarrow> (string \<times> 'v) list \<Rightarrow> (string \<times> 'v) list" where
  "obj_set name v [] = [(name, v)]"
| "obj_set name v ((k, w) # rest) =
     (if k = name then (k, v) # rest else (k, w) # obj_set name v rest)"

text \<open>
  \<^verbatim>\<open>obj[name] = v\<close> on such an object, for a value \<open>v\<close> that is an object: it replaces
  the value of an own property, or adds the property; under the name \<^verbatim>\<open>__proto__\<close> it
  calls the inherited setter instead, which makes \<open>v\<close> the prototype of the object and
  adds no property.
\<close>

definition assign_prop :: "string \<Rightarrow> 'v \<Rightarrow> (string \<times> 'v) list \<Rightarrow> (string \<times> 'v) list" where
  "assign_prop name v obj = (if name = ''__proto__'' then obj else obj_set name v obj)"

text \<open>\<^verbatim>\<open>key.split('|')\<close>: the pieces of the text between the separators.\<close>

fun split_bar :: "string \<Rightarrow> string list" where
  "split_bar [] = [[]]"
| "split_bar (c # cs) =
     (if c = CHR ''|'' then [] # split_bar cs
      else (case split_bar cs of p # ps \<Rightarrow> (c # p) # ps | [] \<Rightarrow> [[c]]))"

text \<open>
  \<^verbatim>\<open>const [region, year] = key.split('|')\<close>: the first two pieces; a piece that is absent
  is \<open>undefined\<close>, which as a property name is the text \<^verbatim>\<open>undefined\<close>.
\<close>

definition piece :: "string list \<Rightarrow> nat \<Rightarrow> string" where
  "piece ps i = (if i < length ps then ps ! i else ''undefined'')"

definition split_key :: "string \<Rightarrow> string \<times> string" where
  "split_key key = (let ps = split_bar key in (piece ps 0, piece ps 1))"

section \<open>Batch aggregator\<close>

record weight_summary =
  w_max :: num
  w_min :: num
  w_median :: num

record aggregate_result =
  byRegion :: "(string \<times> summary) list"
  byRegionAndYear :: "(string \<times> (string \<times> summary) list) list"
  byResource :: "(string \<times> summary) list"
  globalWeight :: weight_summary

text \<open>\<^verbatim>\<open>items.map(item => Number(item.value))\<close>\<close>

definition values_of :: "jsval list \<Rightarrow> num list" where
  "values_of items = map (\<lambda>item. to_number (get_prop item ''value'')) items"

text \<open>
  \<^verbatim>\<open>for (const [label, items] of groups) target[label] = createStatsSummary(values)\<close>:
  the key of the \<^verbatim>\<open>Map\<close> becomes a property name, that is, its text.
\<close>

definition summarize_groups ::
  "(rat \<Rightarrow> string) \<Rightarrow> (jsval \<times> num list) list \<Rightarrow> (string \<times> summary) list" where
  "summarize_groups txt groups =
     foldl
       (\<lambda>obj (label, values). assign_prop (to_string txt label) (createStatsSummary values) obj)
       [] groups"

text \<open>The composite key \<^verbatim>\<open>`${item.region}|${item.year}`\<close>.\<close>

definition regionYearKey :: "(rat \<Rightarrow> string) \<Rightarrow> jsval \<Rightarrow> string" where
  "regionYearKey txt item =
     to_string txt (get_prop item ''region'') @ ''|'' @ to_string txt (get_prop item ''year'')"

text \<open>
  The state of the loop over the composite groups: the own properties of
  \<^verbatim>\<open>results.byRegionAndYear\<close>, and the names that the loop has assigned on
  \<^verbatim>\<open>Object.prototype\<close> itself.
\<close>

record region_year_state =
  ry_own :: "(string \<times> (string \<times> summary) list) list"
  ry_polluted :: "string list"

text \<open>The properties of a built-in function that an assignment cannot write.\<close>

definition unwritable_function_props :: "string list" where
  "unwritable_function_props = [''length'', ''name'', ''caller'', ''arguments'']"

text \<open>
  One turn of that loop.
  \<^verbatim>\<open>const [region, year] = key.split('|');\<close>
  \<^verbatim>\<open>if (!results.byRegionAndYear[region]) results.byRegionAndYear[region] = {};\<close>
  \<^verbatim>\<open>results.byRegionAndYear[region][year] = createStatsSummary(values);\<close>
  The value read under \<open>region\<close> is, in this order: the inner object, when the region is
  an own property; \<^verbatim>\<open>Object.prototype\<close>, when the region is \<^verbatim>\<open>__proto__\<close>; a summary
  stored there by an earlier turn; an inherited method; or \<open>undefined\<close>. Only the last is
  falsy and makes the loop create the inner object. In the other cases the summary is
  assigned on what was read: on \<^verbatim>\<open>Object.prototype\<close> it becomes a property that every
  object inherits (under the name \<^verbatim>\<open>__proto__\<close> the assignment throws, the prototype of
  \<^verbatim>\<open>Object.prototype\<close> being immutable); on a stored summary it is not seen in the
  result; on a method it is not seen either, and it throws under the names that a
  function does not let an assignment write (module code is strict).
\<close>

definition store_region_year ::
  "region_year_state \<Rightarrow> jsval \<times> jsval list \<Rightarrow> error + region_year_state" where
  "store_region_year st entry =
     (case entry of
        (key, items) \<Rightarrow>
          (case split_key (case key of JStr k \<Rightarrow> k | _ \<Rightarrow> []) of
             (region, year) \<Rightarrow>
               let s = createStatsSummary (values_of items)
               in (case map_of (ry_own st) region of
                     Some inner \<Rightarrow>
                       Inr (st \<lparr> ry_own := obj_set region (assign_prop year s inner) (ry_own st) \<rparr>)
                   | None \<Rightarrow>
                       if region = ''__proto__'' then
                         (if year = ''__proto__'' then Inl TypeError
                          else Inr (st \<lparr> ry_polluted := year # ry_polluted st \<rparr>))
                       else if region \<in> set (ry_polluted st) then Inr st
                       else if region \<in> set inherited_functions then
                         (if year \<in> set unwritable_function_props \<or>
                             (region = ''constructor'' \<and> year = ''prototype'')
                          then Inl TypeError else Inr st)
                       else
                         Inr (st \<lparr> ry_own :=
                                obj_set region (assign_prop year s []) (ry_own st) \<rparr>))))"

fun store_groups ::
  "region_year_state \<Rightarrow> (jsval \<times> jsval list) list \<Rightarrow> error + region_year_state" where
  "store_groups st [] = Inr st"
| "store_groups st (entry # rest) =
     (case store_region_year st entry of
        Inl e \<Rightarrow> Inl e
      | Inr st' \<Rightarrow> store_groups st' rest)"

definition weights_of :: "jsval list \<Rightarrow> num list" where
  "weights_of items = map (\<lambda>item. to_number (get_prop item ''weight'')) items"

definition weight_stats :: "num list \<Rightarrow> weight_summary" where
  "weight_stats ws =
     \<lparr> w_max = statsCalculators_max ws,
       w_min = statsCalculators_min ws,
       w_median = statsCalculators_median ws \<rparr>"

definition calculateStatistics :: "(rat \<Rightarrow> string) \<Rightarrow> jsval \<Rightarrow> error + aggregate_result" where
  "calculateStatistics txt rawData =
     (case validateAndCleanData rawData of
        Inl e \<Rightarrow> Inl e
      | Inr cleanData \<Rightarrow>
          if length cleanData = 0 then Inl NoValidRecords
          else
            (case store_groups \<lparr> ry_own = [], ry_polluted = [] \<rparr>
                    (performantGroupBy cleanData (\<lambda>item. JStr (regionYearKey txt item))) of
               Inl e \<Rightarrow> Inl e
             | Inr regionYear \<Rightarrow>
                 Inr
                   \<lparr> byRegion =
                       summarize_groups txt
                         (map (\<lambda>(region, items). (region, values_of items))
                            (performantGroupBy cleanData (\<lambda>item. get_prop item ''region''))),
                     byRegionAndYear = ry_own regionYear,
                     byResource =
                       summarize_groups txt
                         (map (\<lambda>(resource, items). (resource, values_of items))
                            (performantGroupBy cleanData (\<lambda>item. get_prop item ''resource''))),
                     globalWeight = weight_stats (weights_of cleanData) \<rparr>))"

section \<open>Streaming aggregator\<close>

text \<open>
  The running state: the value buffers per region and per resource, and the shared weight
  buffer. (The source also keeps a map for region and year that it never fills and a
  counter that it never reads.) The stream is the list of the chunks it yields.
\<close>

record stream_stats =
  st_byRegion :: "(jsval \<times> num list) list"
  st_byResource :: "(jsval \<times> num list) list"
  st_weights :: "num list"

record stream_result =
  sr_byRegion :: "(string \<times> summary) list"
  sr_byResource :: "(string \<times> summary) list"
  sr_globalWeight :: weight_summary

definition initial_stats :: stream_stats where
  "initial_stats = \<lparr> st_byRegion = [], st_byResource = [], st_weights = [] \<rparr>"

text \<open>The body of the loop over the records of a validated chunk.\<close>

definition update_item :: "stream_stats \<Rightarrow> jsval \<Rightarrow> stream_stats" where
  "update_item stats item =
     (let value = to_number (get_prop item ''value'');
          weight = to_number (get_prop item ''weight'')
      in \<lparr> st_byRegion = map_push (get_prop item ''region'') value (st_byRegion stats),
           st_byResource = map_push (get_prop item ''resource'') value (st_byResource stats),
           st_weights = st_weights stats @ [weight] \<rparr>)"

definition weight_limit :: nat where
  "weight_limit = 100000"

text \<open>
  The memory bound, applied once after the records of a chunk: a buffer longer than the
  limit is sorted and replaced by its median alone.
\<close>

definition compact_weights :: "stream_stats \<Rightarrow> stream_stats" where
  "compact_weights stats =
     (if weight_limit < length (st_weights stats)
      then stats \<lparr> st_weights := [statsCalculators_median (sort_numeric (st_weights stats))] \<rparr>
      else stats)"

definition process_chunk :: "stream_stats \<Rightarrow> jsval \<Rightarrow> error + stream_stats" where
  "process_chunk stats chunk =
     (case validateAndCleanData chunk of
        Inl e \<Rightarrow> Inl e
      | Inr cleanChunk \<Rightarrow> Inr (compact_weights (foldl update_item stats cleanChunk)))"

fun process_stream :: "stream_stats \<Rightarrow> jsval list \<Rightarrow> error + stream_stats" where
  "process_stream stats [] = Inr stats"
| "process_stream stats (chunk # rest) =
     (case process_chunk stats chunk of
        Inl e \<Rightarrow> Inl e
      | Inr stats' \<Rightarrow> process_stream stats' rest)"

definition finish_stream :: "(rat \<Rightarrow> string) \<Rightarrow> stream_stats \<Rightarrow> stream_result" where
  "finish_stream txt stats =
     \<lparr> sr_byRegion = summarize_groups txt (st_byRegion stats),
       sr_byResource = summarize_groups txt (st_byResource stats),
       sr_globalWeight = weight_stats (st_weights stats) \<rparr>"

definition calculateStatisticsStream ::
  "(rat \<Rightarrow> string) \<Rightarrow> jsval list \<Rightarrow> error + stream_result" where
  "calculateStatisticsStream txt dataStream =
     (case process_stream initial_stats dataStream of
        Inl e \<Rightarrow> Inl e
      | Inr stats \<Rightarrow> Inr (finish_stream txt stats))"

section \<open>Notions used in the statements\<close>

text \<open>
  The finite doubles are the numbers \<open>m * 2^e\<close> with an integer \<open>m\<close> below \<open>2^53\<close> in
  magnitude and an exponent \<open>e\<close> from \<open>-1074\<close> to \<open>971\<close>.
\<close>

definition dyadic :: "int \<Rightarrow> int \<Rightarrow> rat" where
  "dyadic m e = (if 0 \<le> e then of_int m * 2 ^ nat e else of_int m / 2 ^ nat (- e))"

definition double_parts :: "int \<Rightarrow> int \<Rightarrow> bool" where
  "double_parts m e \<longleftrightarrow> \<bar>m\<bar> < 2 ^ 53 \<and> - 1074 \<le> e \<and> e \<le> 971"

text \<open>The items on which the own-property test of the validator throws.\<close>

fun throws_on :: "jsval \<Rightarrow> bool" where
  "throws_on JUndefined = True"
| "throws_on JNull = True"
| "throws_on (JObj kvs) = (''hasOwnProperty'' \<in> set (map fst kvs))"
| "throws_on v = False"

text \<open>
  The retention rule in the words of the specification: a record is retained when it is
  an object, carries the six required fields with values other than \<open>null\<close> and
  \<open>undefined\<close>, and its year, value and weight convert to finite numbers.
\<close>

definition retained :: "jsval \<Rightarrow> bool" where
  "retained item =
     (case item of
        JObj kvs \<Rightarrow>
          (\<forall>f \<in> set requiredFields.
             f \<in> set (map fst kvs) \<and> get_prop item f \<noteq> JNull \<and> get_prop item f \<noteq> JUndefined) \<and>
          (\<forall>f \<in> set numericFields. is_fin (to_number (get_prop item f)))
      | _ \<Rightarrow> False)"

text \<open>
  The bucket of a record in the breakdown by region and year: the two property names
  under which its composite group is stored.
\<close>

definition bucket :: "(rat \<Rightarrow> string) \<Rightarrow> jsval \<Rightarrow> string \<times> string" where
  "bucket txt item = split_key (regionYearKey txt item)"

text \<open>
  What the breakdown holds under a region and a year: the own property \<open>year\<close> of the
  own property \<open>region\<close>.
\<close>

definition stored_at ::
  "(string \<times> (string \<times> summary) list) list \<Rightarrow> string \<Rightarrow> string \<Rightarrow> summary option" where
  "stored_at obj region year =
     (case map_of obj region of None \<Rightarrow> None | Some inner \<Rightarrow> map_of inner year)"

text \<open>
  A record with plain names: the texts of its region and of its year contain no bar, and
  neither is a name that every object inherits.
\<close>

definition plain_names :: "(rat \<Rightarrow> string) \<Rightarrow> jsval \<Rightarrow> bool" where
  "plain_names txt item \<longleftrightarrow>
     CHR ''|'' \<notin> set (to_string txt (get_prop item ''region'')) \<and>
     CHR ''|'' \<notin> set (to_string txt (get_prop item ''year'')) \<and>
     to_string txt (get_prop item ''region'') \<notin> set (''__proto__'' # inherited_functions) \<and>
     to_string txt (get_prop item ''year'') \<noteq> ''__proto__''"

text \<open>
  The value buffers that the records of a list add to the buffers \<open>groups\<close>, the key
  being the field \<open>label\<close> of a record.
\<close>

definition value_groups ::
  "string \<Rightarrow> (jsval \<times> num list) list \<Rightarrow> jsval list \<Rightarrow> (jsval \<times> num list) list" where
  "value_groups label groups items =
     foldl (\<lambda>g item. map_push (get_prop item label) (to_number (get_prop item ''value'')) g)
       groups items"

subsection \<open>Example inputs\<close>

text \<open>
  The closed examples print integers only; they fix the parameter for the text of the
  other numbers to a function that is never consulted there.
\<close>

definition no_text :: "rat \<Rightarrow> string" where
  "no_text q = []"

definition mk_record :: "jsval \<Rightarrow> jsval \<Rightarrow> jsval \<Rightarrow> jsval \<Rightarrow> jsval \<Rightarrow> jsval \<Rightarrow> jsval" where
  "mk_record i region resource year v w =
     JObj [(''id'', i), (''region'', region), (''resource'', resource), (''year'', year),
           (''value'', v), (''weight'', w)]"

text \<open>Two records whose numeric fields are not numbers but convert to finite numbers.\<close>

definition coerced_a :: jsval where
  "coerced_a =
     mk_record (JStr ''1'') (JStr ''Asia'') (JStr ''Cereals'') (JStr ''2020'') (JStr [])
       (JBool True)"

definition coerced_b :: jsval where
  "coerced_b =
     mk_record (JStr ''2'') (JStr ''Asia'') (JStr ''Cereals'') (JNum (Fin 2020)) (JStr ''10'')
       (JArr [])"

text \<open>A well-formed record with the weight \<open>w\<close>.\<close>

definition weighted :: "rat \<Rightarrow> jsval" where
  "weighted w =
     mk_record (JStr ''7'') (JStr ''Asia'') (JStr ''Cereals'') (JNum (Fin 2020)) (JNum (Fin 1))
       (JNum (Fin w))"

text \<open>
  Two well-formed records of different regions; the label of the first contains the
  separator of the composite key.
\<close>

definition barred_a :: jsval where
  "barred_a =
     mk_record (JStr ''1'') (JStr ''EU|2020'') (JStr ''Cereals'') (JNum (Fin 2021))
       (JNum (Fin 100)) (JNum (Fin 1))"

definition barred_b :: jsval where
  "barred_b =
     mk_record (JStr ''2'') (JStr ''EU'') (JStr ''Cereals'') (JNum (Fin 2020))
       (JNum (Fin 200)) (JNum (Fin 2))"

section \<open>Properties of the precision arithmetic\<close>

text \<open>The floor of a quotient of numerals, for evaluation.\<close>

lemma floor_rat_numeral_div [simp]:
  "\<lfloor>(numeral a :: rat) / numeral b\<rfloor> = numeral a div numeral b"
  using floor_divide_of_int_eq[of "numeral a" "numeral b", where ?'a = rat] by simp

lemma floor_rat_neg_numeral_div [simp]:
  "\<lfloor>- (numeral a :: rat) / numeral b\<rfloor> = - numeral a div numeral b"
  using floor_divide_of_int_eq[of "- numeral a" "numeral b", where ?'a = rat] by simp

lemma floor_rat_one_div [simp]:
  "\<lfloor>(1 :: rat) / numeral b\<rfloor> = 1 div numeral b"
  using floor_divide_of_int_eq[of 1 "numeral b", where ?'a = rat] by simp

lemma floor_rat_neg_one_div [simp]:
  "\<lfloor>- (1 :: rat) / numeral b\<rfloor> = - 1 div numeral b"
  using floor_divide_of_int_eq[of "- 1" "numeral b", where ?'a = rat] by simp

lemma dbl_Fin: "\<bar>q\<bar> < overflow_bound \<Longrightarrow> dbl q = Fin q"
  by (auto simp: dbl_def)

lemma abs_round_half_le: "\<bar>rat_of_int \<lfloor>x + 1 / 2\<rfloor>\<bar> \<le> \<bar>x\<bar> + 1"
proof -
  have "rat_of_int \<lfloor>x + 1 / 2\<rfloor> \<le> x + 1 / 2" by (rule of_int_floor_le)
  moreover have "x + 1 / 2 < rat_of_int \<lfloor>x + 1 / 2\<rfloor> + 1"
    using floor_correct[of "x + 1 / 2"] by simp
  ultimately show ?thesis by linarith
qed

lemma abs_div_pow10_le: "\<bar>x / 10 ^ p\<bar> \<le> \<bar>x :: rat\<bar>"
proof -
  have "(1::rat) \<le> 10 ^ p" by simp
  then have "\<bar>x\<bar> / 10 ^ p \<le> \<bar>x\<bar> / 1"
    by (intro divide_left_mono) auto
  then show ?thesis by simp
qed

lemma round_finite:
  assumes pw: "(10::rat) ^ p < overflow_bound"
    and b: "\<bar>q * 10 ^ p\<bar> + 1 < overflow_bound"
  shows "precisionHelper_round (JNum (Fin q)) p = Fin (of_int \<lfloor>q * 10 ^ p + 1 / 2\<rfloor> / 10 ^ p)"
proof -
  let ?n = "rat_of_int \<lfloor>q * 10 ^ p + 1 / 2\<rfloor>"
  have pow: "math_pow10 p = Fin (10 ^ p)"
    unfolding math_pow10_def using pw by (intro dbl_Fin) simp
  have "\<bar>q * 10 ^ p\<bar> < overflow_bound" using b by linarith
  then have d1: "dbl (q * 10 ^ p) = Fin (q * 10 ^ p)" by (rule dbl_Fin)
  have nb: "\<bar>?n\<bar> < overflow_bound"
    using abs_round_half_le[of "q * 10 ^ p"] b by linarith
  then have d2: "dbl ?n = Fin ?n" by (rule dbl_Fin)
  have "\<bar>?n / 10 ^ p\<bar> < overflow_bound"
    using abs_div_pow10_le[of ?n p] nb by linarith
  then have d3: "dbl (?n / 10 ^ p) = Fin (?n / 10 ^ p)" by (rule dbl_Fin)
  show ?thesis
    by (simp add: precisionHelper_round_def pow d1 d2 d3)
qed

lemma round_not_finite: "\<not> number_isFinite v \<Longrightarrow> precisionHelper_round v p = Fin 0"
  by (cases v rule: number_isFinite.cases) (simp_all add: precisionHelper_round_def)

lemma small_bound: "\<bar>q\<bar> \<le> 10 ^ 300 \<Longrightarrow> \<bar>q\<bar> < overflow_bound"
proof -
  have "(10::rat) ^ 300 < overflow_bound" by (simp add: overflow_bound_def)
  then show "\<bar>q\<bar> \<le> 10 ^ 300 \<Longrightarrow> \<bar>q\<bar> < overflow_bound" by linarith
qed

lemma round6:
  assumes "\<bar>q\<bar> \<le> 10 ^ 200"
  shows "precisionHelper_round (JNum (Fin q)) default_precision =
         Fin (of_int \<lfloor>q * 1000000 + 1 / 2\<rfloor> / 1000000)"
proof -
  have "\<bar>q * 10 ^ 6\<bar> + 1 \<le> 10 ^ 200 * 10 ^ 6 + 1"
    using assms by (simp add: abs_mult)
  also have "\<dots> < overflow_bound" by (simp add: overflow_bound_def)
  finally have b: "\<bar>q * 10 ^ 6\<bar> + 1 < overflow_bound" .
  have pw: "(10::rat) ^ 6 < overflow_bound" by (simp add: overflow_bound_def)
  show ?thesis using round_finite[OF pw b] by (simp add: default_precision_def)
qed

lemma add_small:
  assumes "\<bar>a\<bar> \<le> 10 ^ 100" "\<bar>b\<bar> \<le> 10 ^ 100"
  shows "precisionHelper_add (JNum (Fin a)) (JNum (Fin b)) =
         Fin (of_int \<lfloor>(a + b) * 1000000 + 1 / 2\<rfloor> / 1000000)"
proof -
  have "(10::rat) ^ 100 + 10 ^ 100 \<le> 10 ^ 200" by simp
  then have s: "\<bar>a + b\<bar> \<le> 10 ^ 200" using assms by linarith
  have "(10::rat) ^ 200 \<le> 10 ^ 300" by simp
  then have "\<bar>a + b\<bar> < overflow_bound" using s by (intro small_bound) linarith
  then show ?thesis
    by (simp add: precisionHelper_add_def finite_or_zero_def dbl_Fin round6[OF s])
qed

lemma divide_small:
  assumes "\<bar>a / b\<bar> \<le> 10 ^ 200" "b \<noteq> 0"
  shows "precisionHelper_divide (JNum (Fin a)) (JNum (Fin b)) =
         Fin (of_int \<lfloor>a / b * 1000000 + 1 / 2\<rfloor> / 1000000)"
proof -
  have "(10::rat) ^ 200 \<le> 10 ^ 300" by simp
  then have "\<bar>a / b\<bar> < overflow_bound" using assms(1) by (intro small_bound) linarith
  then show ?thesis using assms(2)
    by (simp add: precisionHelper_divide_def dbl_Fin round6[OF assms(1)])
qed

lemma add_undefined: "precisionHelper_add JUndefined JUndefined = Fin 0"
proof -
  have "dbl 0 = Fin 0" by (simp add: dbl_def overflow_bound_def)
  then show ?thesis
    using round6[of 0] by (simp add: precisionHelper_add_def finite_or_zero_def)
qed

lemma divide_zero_two: "precisionHelper_divide (JNum (Fin 0)) (JNum (Fin 2)) = Fin 0"
  by (simp add: divide_small)

text \<open>
  Claim C3. \<^verbatim>\<open>round(x, precision)\<close> is said to return 0 for an \<open>x\<close> that is not a finite
  number and otherwise \<open>x\<close> rounded to \<open>precision\<close> decimal digits with a tie going away
  from zero, so that \<open>-0.0000005\<close> at precision 6 would give \<open>-0.000001\<close>.

  The code scales and calls \<^verbatim>\<open>Math.round\<close>, which sends a tie to the larger integer. The
  product \<open>-0.0000005 * 10^6\<close> is exactly \<open>-0.5\<close> (also in double arithmetic), whose
  rounding is zero: the result is 0, not \<open>-0.000001\<close>.
\<close>

theorem round_half_counterexample:
  "precisionHelper_round (JNum (Fin (- 5 / 10 ^ 7))) 6 = Fin 0 \<and>
   precisionHelper_round (JNum (Fin (- 5 / 10 ^ 7))) 6 \<noteq> Fin (- 1 / 10 ^ 6)"
proof -
  have "precisionHelper_round (JNum (Fin (- 5 / 10 ^ 7))) default_precision = Fin 0"
    by (simp add: round6)
  then show ?thesis by (simp add: default_precision_def)
qed

lemma dyadic_bound:
  assumes "double_parts m e"
  shows "\<bar>dyadic m e\<bar> \<le> (2 ^ 53 - 1) * 2 ^ 971"
proof -
  have m: "\<bar>rat_of_int m\<bar> \<le> 2 ^ 53 - 1"
  proof -
    have "\<bar>m\<bar> \<le> 2 ^ 53 - 1" using assms by (simp add: double_parts_def)
    then have "rat_of_int \<bar>m\<bar> \<le> rat_of_int (2 ^ 53 - 1)" by (simp only: of_int_le_iff)
    then show ?thesis by simp
  qed
  show ?thesis
  proof (cases "0 \<le> e")
    case True
    have "e \<le> 971" using assms by (simp add: double_parts_def)
    then have "nat e \<le> 971" by linarith
    then have "(2::rat) ^ nat e \<le> 2 ^ 971" by (intro power_increasing) auto
    then have "\<bar>rat_of_int m\<bar> * 2 ^ nat e \<le> (2 ^ 53 - 1) * 2 ^ 971"
      using m by (intro mult_mono) auto
    then show ?thesis using True by (simp add: dyadic_def abs_mult)
  next
    case False
    have "(1::rat) \<le> 2 ^ nat (- e)" by simp
    then have "\<bar>rat_of_int m\<bar> / 2 ^ nat (- e) \<le> \<bar>rat_of_int m\<bar> / 1"
      by (intro divide_left_mono) auto
    then have "\<bar>rat_of_int m\<bar> / 2 ^ nat (- e) \<le> 2 ^ 53 - 1" using m by simp
    moreover have "(2 ^ 53 - 1 :: rat) \<le> (2 ^ 53 - 1) * 2 ^ 971" by simp
    ultimately show ?thesis using False by (simp add: dyadic_def)
  qed
qed

lemma round_exact_product:
  assumes "p \<le> 22" "double_parts m e" "q * 10 ^ p = dyadic m e"
  shows "precisionHelper_round (JNum (Fin q)) p =
         Fin (of_int \<lfloor>q * 10 ^ p + 1 / 2\<rfloor> / 10 ^ p)"
proof (rule round_finite)
  have "(10::rat) ^ p \<le> 10 ^ 22" using assms(1) by (intro power_increasing) auto
  also have "\<dots> < overflow_bound" by (simp add: overflow_bound_def)
  finally show "(10::rat) ^ p < overflow_bound" .
  have "\<bar>q * 10 ^ p\<bar> + 1 \<le> (2 ^ 53 - 1) * 2 ^ 971 + 1"
    using dyadic_bound[OF assms(2)] assms(3) by simp
  also have "\<dots> < overflow_bound" by (simp add: overflow_bound_def)
  finally show "\<bar>q * 10 ^ p\<bar> + 1 < overflow_bound" .
qed

text \<open>
  Claim C3, amended. \<^verbatim>\<open>round(x, precision)\<close> returns 0 for every \<open>x\<close> that is not a finite
  number. For a finite \<open>x\<close> and a precision of at most 22 digits such that
  \<open>x * 10^precision\<close> is itself a double, so that the product computed by the code is
  exact, it returns \<open>\<lfloor>x * 10^precision + 1/2\<rfloor> / 10^precision\<close> (the code returns the
  double nearest to that quotient): the nearest multiple of \<open>10^-precision\<close>, a tie going
  towards plus infinity, so that a negative tie rounds towards zero. Nothing is said of
  an \<open>x\<close> whose product is rounded by the multiplication.
\<close>

theorem round_half_up:
  "(\<not> number_isFinite v \<longrightarrow> precisionHelper_round v p = Fin 0) \<and>
   (p \<le> 22 \<and> double_parts m e \<and> q * 10 ^ p = dyadic m e \<longrightarrow>
      precisionHelper_round (JNum (Fin q)) p = Fin (of_int \<lfloor>q * 10 ^ p + 1 / 2\<rfloor> / 10 ^ p))"
  using round_not_finite round_exact_product by simp

theorem round_half_up_witness:
  "\<not> number_isFinite (JNum NaN) \<and> precisionHelper_round (JNum NaN) 6 = Fin 0 \<and>
   (6::nat) \<le> 22 \<and> double_parts (- 15625) (- 1) \<and>
   (- 1 / 128 :: rat) * 10 ^ 6 = dyadic (- 15625) (- 1) \<and>
   precisionHelper_round (JNum (Fin (- 1 / 128))) 6 = Fin (- 7812 / 10 ^ 6) \<and>
   (0::nat) \<le> 22 \<and> double_parts (- 5) (- 1) \<and>
   (- 5 / 2 :: rat) * 10 ^ 0 = dyadic (- 5) (- 1) \<and>
   precisionHelper_round (JNum (Fin (- 5 / 2))) 0 = Fin (- 2)"
proof -
  have a: "(6::nat) \<le> 22" "(0::nat) \<le> 22" by simp_all
  have b: "double_parts (- 15625) (- 1)" "double_parts (- 5) (- 1)"
    by (simp_all add: double_parts_def)
  have c: "(- 1 / 128 :: rat) * 10 ^ 6 = dyadic (- 15625) (- 1)"
    "(- 5 / 2 :: rat) * 10 ^ 0 = dyadic (- 5) (- 1)"
    by (simp_all add: dyadic_def)
  have n: "\<not> number_isFinite (JNum NaN)" by simp
  note t = round_half_up[of "JNum NaN" 6 "- 15625" "- 1" "- 1 / 128"]
  note u = round_half_up[of "JNum NaN" 0 "- 5" "- 1" "- 5 / 2"]
  have d: "precisionHelper_round (JNum NaN) 6 = Fin 0" using t n by blast
  have "precisionHelper_round (JNum (Fin (- 1 / 128))) 6 =
        Fin (of_int \<lfloor>(- 1 / 128 :: rat) * 10 ^ 6 + 1 / 2\<rfloor> / 10 ^ 6)"
    using t a(1) b(1) c(1) by blast
  then have e: "precisionHelper_round (JNum (Fin (- 1 / 128))) 6 = Fin (- 7812 / 10 ^ 6)"
    by simp
  have "precisionHelper_round (JNum (Fin (- 5 / 2))) 0 =
        Fin (of_int \<lfloor>(- 5 / 2 :: rat) * 10 ^ 0 + 1 / 2\<rfloor> / 10 ^ 0)"
    using u a(2) b(2) c(2) by blast
  then have f: "precisionHelper_round (JNum (Fin (- 5 / 2))) 0 = Fin (- 2)"
    by simp
  show ?thesis using a b c n d e f by blast
qed

section \<open>Properties of the summarizer\<close>

subsection \<open>Maximum and minimum\<close>

lemma foldl_max2_fin:
  "foldl max2 (Fin a) (map Fin qs) = Fin (Max (insert a (set qs)))"
proof (induction qs arbitrary: a)
  case Nil
  then show ?case by simp
next
  case (Cons q qs)
  have "max2 (Fin a) (Fin q) = Fin (max a q)" by (simp add: max2_def max_def)
  moreover have "Max (insert (max a q) (set qs)) = Max (insert a (insert q (set qs)))"
    by (cases "set qs = {}") (simp_all add: max.assoc)
  ultimately show ?case using Cons[of "max a q"] by simp
qed

lemma foldl_min2_fin:
  "foldl min2 (Fin a) (map Fin qs) = Fin (Min (insert a (set qs)))"
proof (induction qs arbitrary: a)
  case Nil
  then show ?case by simp
next
  case (Cons q qs)
  have "min2 (Fin a) (Fin q) = Fin (min a q)" by (simp add: min2_def min_def)
  moreover have "Min (insert (min a q) (set qs)) = Min (insert a (insert q (set qs)))"
    by (cases "set qs = {}") (simp_all add: min.assoc)
  ultimately show ?case using Cons[of "min a q"] by simp
qed

lemma finite_entries_map: "finite_entries values = map Fin (map the_fin (finite_entries values))"
proof -
  have "\<forall>x \<in> set (finite_entries values). Fin (the_fin x) = x"
  proof
    fix x assume "x \<in> set (finite_entries values)"
    then have "is_fin x" by (simp add: finite_entries_def)
    then show "Fin (the_fin x) = x" by (cases x) simp_all
  qed
  then show ?thesis by (simp add: map_idI)
qed

lemma max_min_some_finite:
  assumes "finite_entries values \<noteq> []"
  shows "statsCalculators_max values = Fin (Max (the_fin ` set (finite_entries values)))"
    and "statsCalculators_min values = Fin (Min (the_fin ` set (finite_entries values)))"
proof -
  obtain q qs where e: "map the_fin (finite_entries values) = q # qs"
    using assms by (cases "finite_entries values") auto
  have f: "finite_entries values = map Fin (q # qs)"
    using finite_entries_map[of "values"] e by simp
  have ne: "values \<noteq> []" using assms by (auto simp: finite_entries_def)
  have s: "the_fin ` set (finite_entries values) = insert q (set qs)"
    using e by (metis list.set(2) set_map)
  have "math_max (finite_entries values) = Fin (Max (insert q (set qs)))"
    unfolding f math_max_def using foldl_max2_fin[of q qs] by (simp add: max2_def)
  then show "statsCalculators_max values = Fin (Max (the_fin ` set (finite_entries values)))"
    using ne s by (simp add: statsCalculators_max_def)
  have "math_min (finite_entries values) = Fin (Min (insert q (set qs)))"
    unfolding f math_min_def using foldl_min2_fin[of q qs] by (simp add: min2_def)
  then show "statsCalculators_min values = Fin (Min (the_fin ` set (finite_entries values)))"
    using ne s by (simp add: statsCalculators_min_def)
qed

lemma max_min_empty:
  "statsCalculators_max [] = Fin 0" "statsCalculators_min [] = Fin 0"
  by (simp_all add: statsCalculators_max_def statsCalculators_min_def)

text \<open>
  Claim C1. \<^verbatim>\<open>max\<close> and \<^verbatim>\<open>min\<close> are said to return 0 whenever no finite entry is left,
  in particular on \<^verbatim>\<open>[NaN]\<close>.

  The code tests the length of the array before it filters. On \<^verbatim>\<open>[NaN]\<close> the array is not
  empty, the filtered array is, and \<^verbatim>\<open>Math.max()\<close> and \<^verbatim>\<open>Math.min()\<close> without arguments
  are \<open>-Infinity\<close> and \<open>+Infinity\<close>. (On the empty array, and on an array with a finite
  entry, the two calculators do what is said: lemmas \<open>max_min_empty\<close> and
  \<open>max_min_some_finite\<close>.)
\<close>

theorem max_min_all_nonfinite:
  "statsCalculators_max [NaN] = NInf \<and> statsCalculators_min [NaN] = PInf"
  by (simp add: statsCalculators_max_def statsCalculators_min_def finite_entries_def
      math_max_def math_min_def)

subsection \<open>The median\<close>

lemma num_key_inj: "inj num_key"
proof (rule injI)
  fix a b show "num_key a = num_key b \<Longrightarrow> a = b"
    by (cases a; cases b) simp_all
qed

lemma sort_numeric_mset_cong:
  assumes "mset xs = mset ys"
  shows "sort_numeric xs = sort_numeric ys"
  unfolding sort_numeric_def
proof (rule sort_key_inj_key_eq)
  show "mset xs = mset (sort_key num_key ys)" using assms by simp
  show "inj_on num_key (set xs)" using num_key_inj by (rule inj_on_subset) simp
  show "sorted (map num_key (sort_key num_key ys))" by simp
qed

lemma length_sorted_entries: "length (sorted_entries values) = length (finite_entries values)"
  by (simp add: sorted_entries_def sort_numeric_def)

lemma mset_sorted_entries: "mset (sorted_entries values) = mset (finite_entries values)"
  by (simp add: sorted_entries_def sort_numeric_def)

lemma sorted_entries_mset_cong:
  "mset values' = mset values \<Longrightarrow> sorted_entries values' = sorted_entries values"
  unfolding sorted_entries_def finite_entries_def
  by (rule sort_numeric_mset_cong) simp

lemma num_key_fin_le: "is_fin a \<Longrightarrow> is_fin b \<Longrightarrow> num_key a \<le> num_key b \<longleftrightarrow> the_fin a \<le> the_fin b"
  by (cases a; cases b) simp_all

lemma sorted_map_fin:
  assumes "\<forall>x \<in> set xs. is_fin x" "sorted (map num_key xs)"
  shows "sorted (map the_fin xs)"
  using assms
proof (induction xs)
  case Nil
  then show ?case by simp
next
  case (Cons a xs)
  then show ?case by (auto simp: num_key_fin_le)
qed

lemma sorted_entries_ascending: "sorted (map the_fin (sorted_entries values))"
proof (rule sorted_map_fin)
  show "\<forall>x\<in>set (sorted_entries values). is_fin x"
    by (simp add: sorted_entries_def sort_numeric_def finite_entries_def)
  show "sorted (map num_key (sorted_entries values))"
    by (simp add: sorted_entries_def sort_numeric_def)
qed

lemma median_none_finite:
  assumes "finite_entries values = []"
  shows "statsCalculators_median values = Fin 0"
proof -
  have "sorted_entries values = []"
    using assms by (simp add: sorted_entries_def sort_numeric_def)
  then show ?thesis
    by (simp add: statsCalculators_median_def js_index_def add_undefined divide_zero_two)
qed

lemma median_odd:
  assumes "odd (length (finite_entries values))"
  shows "statsCalculators_median values =
         sorted_entries values ! (length (finite_entries values) div 2)"
proof -
  have ne: "values \<noteq> []" using assms by (auto simp: finite_entries_def)
  have m: "length (sorted_entries values) mod 2 \<noteq> 0"
    using assms by (simp add: length_sorted_entries odd_iff_mod_2_eq_one)
  have n: "nat (int (length (sorted_entries values)) div 2) = length (finite_entries values) div 2"
    by (simp add: length_sorted_entries zdiv_int)
  show ?thesis
    using ne m n by (simp add: statsCalculators_median_def Let_def)
qed

lemma js_index_nat: "i < length xs \<Longrightarrow> js_index xs (int i) = JNum (xs ! i)"
  by (simp add: js_index_def)

lemma median_even:
  assumes "finite_entries values \<noteq> []" "even (length (finite_entries values))"
  shows "statsCalculators_median values =
         precisionHelper_divide
           (JNum (precisionHelper_add
              (JNum (sorted_entries values ! (length (finite_entries values) div 2 - 1)))
              (JNum (sorted_entries values ! (length (finite_entries values) div 2)))))
           (JNum (Fin 2))"
proof -
  let ?n = "length (finite_entries values)"
  let ?S = "sorted_entries values"
  have ne: "values \<noteq> []" using assms(1) by (auto simp: finite_entries_def)
  have "?n \<noteq> 0" "?n \<noteq> 1" using assms by auto
  then have n2: "2 \<le> ?n" by linarith
  have len: "length ?S = ?n" by (rule length_sorted_entries)
  have m: "length ?S mod 2 = 0"
    using assms(2) by (simp add: len)
  have i: "int (length ?S) div 2 = int (?n div 2)" by (simp add: len zdiv_int)
  have k1: "1 \<le> ?n div 2" using n2 by linarith
  have e: "int (?n div 2) - 1 = int (?n div 2 - 1)" using k1 by linarith
  have "?n div 2 - 1 < length ?S" using n2 len by linarith
  then have lo: "js_index ?S (int (?n div 2) - 1) = JNum (?S ! (?n div 2 - 1))"
    unfolding e by (rule js_index_nat)
  have "?n div 2 < length ?S" using n2 len by linarith
  then have hi: "js_index ?S (int (?n div 2)) = JNum (?S ! (?n div 2))"
    by (rule js_index_nat)
  have "statsCalculators_median values =
        precisionHelper_divide
          (JNum (precisionHelper_add (js_index ?S (int (length ?S) div 2 - 1))
             (js_index ?S (int (length ?S) div 2))))
          (JNum (Fin 2))"
    using ne m by (simp add: statsCalculators_median_def Let_def)
  then show ?thesis unfolding i lo hi .
qed

lemma median_mset_cong:
  assumes "mset values' = mset values"
  shows "statsCalculators_median values' = statsCalculators_median values"
proof -
  have "length values' = length values" using assms by (rule mset_eq_length)
  then show ?thesis
    by (simp add: statsCalculators_median_def sorted_entries_mset_cong[OF assms])
qed

lemmas median_eval = statsCalculators_median_def sorted_entries_def finite_entries_def
  sort_numeric_def js_index_def Let_def add_small divide_small add_undefined

lemma median_1234: "statsCalculators_median [Fin 1, Fin 2, Fin 3, Fin 4] = Fin (5 / 2)"
  by (simp add: median_eval)

lemma median_13579: "statsCalculators_median [Fin 1, Fin 3, Fin 5, Fin 7, Fin 9] = Fin 5"
  by (simp add: median_eval)

text \<open>
  Claim C8. \<^verbatim>\<open>median\<close> returns 0 when no finite entry is left; otherwise it sorts the
  finite entries in ascending order and returns the middle one as it is when their number
  is odd, and \<^verbatim>\<open>divide(add(lower, upper), 2)\<close> of the two middle ones when it is even;
  \<^verbatim>\<open>median([1,2,3,4])\<close> is 2.5 and \<^verbatim>\<open>median([1,3,5,7,9])\<close> is 5; and the result does not
  depend on the order of the input.
\<close>

theorem median_spec:
  "(finite_entries values = [] \<longrightarrow> statsCalculators_median values = Fin 0) \<and>
   (odd (length (finite_entries values)) \<longrightarrow>
      statsCalculators_median values =
        sorted_entries values ! (length (finite_entries values) div 2)) \<and>
   (finite_entries values \<noteq> [] \<and> even (length (finite_entries values)) \<longrightarrow>
      statsCalculators_median values =
        precisionHelper_divide
          (JNum (precisionHelper_add
             (JNum (sorted_entries values ! (length (finite_entries values) div 2 - 1)))
             (JNum (sorted_entries values ! (length (finite_entries values) div 2)))))
          (JNum (Fin 2))) \<and>
   sorted (map the_fin (sorted_entries values)) \<and>
   mset (sorted_entries values) = mset (filter is_fin values) \<and>
   statsCalculators_median [Fin 1, Fin 2, Fin 3, Fin 4] = Fin (5 / 2) \<and>
   statsCalculators_median [Fin 1, Fin 3, Fin 5, Fin 7, Fin 9] = Fin 5 \<and>
   (mset values' = mset values \<longrightarrow>
      statsCalculators_median values' = statsCalculators_median values)"
  using median_none_finite[of "values"] median_odd[of "values"] median_even[of "values"]
    sorted_entries_ascending[of "values"] mset_sorted_entries[of "values"]
    median_1234 median_13579 median_mset_cong[of values' "values"]
  by (simp add: finite_entries_def)

theorem median_spec_witness:
  "finite_entries [NaN, PInf] = [] \<and> statsCalculators_median [NaN, PInf] = Fin 0 \<and>
   odd (length (finite_entries [Fin 9, NaN, Fin 1, Fin 5])) \<and>
   statsCalculators_median [Fin 9, NaN, Fin 1, Fin 5] = Fin 5 \<and>
   finite_entries [Fin 4, Fin 1, Fin 3, Fin 2] \<noteq> [] \<and>
   even (length (finite_entries [Fin 4, Fin 1, Fin 3, Fin 2])) \<and>
   mset [Fin 4, Fin 1, Fin 3, Fin 2] = mset [Fin 1, Fin 2, Fin 3, Fin 4] \<and>
   statsCalculators_median [Fin 4, Fin 1, Fin 3, Fin 2] = Fin (5 / 2)"
proof -
  have a: "finite_entries [NaN, PInf] = []" by (simp add: finite_entries_def)
  have b: "odd (length (finite_entries [Fin 9, NaN, Fin 1, Fin 5]))"
    by (simp add: finite_entries_def)
  have c: "finite_entries [Fin 4, Fin 1, Fin 3, Fin 2] \<noteq> []"
    "even (length (finite_entries [Fin 4, Fin 1, Fin 3, Fin 2]))"
    by (simp_all add: finite_entries_def)
  have d: "mset [Fin 4, Fin 1, Fin 3, Fin 2] = mset [Fin 1, Fin 2, Fin 3, Fin 4]"
    by (simp add: add.commute add.left_commute)
  have 1: "statsCalculators_median [NaN, PInf] = Fin 0"
    using median_spec[of "[NaN, PInf]"] a by blast
  have "statsCalculators_median [Fin 9, NaN, Fin 1, Fin 5] =
        sorted_entries [Fin 9, NaN, Fin 1, Fin 5] ! (length (finite_entries [Fin 9, NaN, Fin 1, Fin 5]) div 2)"
    using median_spec[of "[Fin 9, NaN, Fin 1, Fin 5]"] b by blast
  then have 2: "statsCalculators_median [Fin 9, NaN, Fin 1, Fin 5] = Fin 5"
    by (simp add: sorted_entries_def finite_entries_def sort_numeric_def)
  have "statsCalculators_median [Fin 4, Fin 1, Fin 3, Fin 2] =
        statsCalculators_median [Fin 1, Fin 2, Fin 3, Fin 4]"
    using median_spec[of "[Fin 1, Fin 2, Fin 3, Fin 4]" "[Fin 4, Fin 1, Fin 3, Fin 2]"] d by blast
  moreover have "statsCalculators_median [Fin 1, Fin 2, Fin 3, Fin 4] = Fin (5 / 2)"
    using median_spec[of "[Fin 1, Fin 2, Fin 3, Fin 4]"] by blast
  ultimately have 3: "statsCalculators_median [Fin 4, Fin 1, Fin 3, Fin 2] = Fin (5 / 2)" by simp
  show ?thesis using a b c d 1 2 3 by blast
qed

section \<open>Properties of the validator\<close>

lemma filter_js_Inr:
  "filter_js p xs = Inr ys \<Longrightarrow> ys = filter (\<lambda>x. p x = Inr True) xs"
proof (induction xs arbitrary: ys)
  case Nil
  then show ?case by simp
next
  case (Cons x xs)
  then show ?case by (auto split: sum.splits if_splits)
qed

lemma filter_js_Inl:
  "filter_js p xs = Inl e \<Longrightarrow> \<exists>x \<in> set xs. p x = Inl e"
proof (induction xs)
  case Nil
  then show ?case by simp
next
  case (Cons x xs)
  then show ?case by (auto split: sum.splits)
qed

lemma filter_js_total:
  "\<forall>x \<in> set xs. \<exists>b. p x = Inr b \<Longrightarrow> \<exists>ys. filter_js p xs = Inr ys"
proof (induction xs)
  case Nil
  then show ?case by simp
next
  case (Cons x xs)
  then obtain b ys where "p x = Inr b" "filter_js p xs = Inr ys" by auto
  then show ?case by simp
qed

lemma filter_js_append:
  "filter_js p (xs @ ys) =
     (case filter_js p xs of
        Inl e \<Rightarrow> Inl e
      | Inr a \<Rightarrow> (case filter_js p ys of Inl e \<Rightarrow> Inl e | Inr b \<Rightarrow> Inr (a @ b)))"
  by (induction xs) (auto split: sum.splits)

lemma every_Inr:
  "\<forall>f \<in> set fs. \<exists>b. p f = Inr b \<Longrightarrow> every p fs = Inr (\<forall>f \<in> set fs. p f = Inr True)"
proof (induction fs)
  case Nil
  then show ?case by simp
next
  case (Cons f fs)
  then obtain b where b: "p f = Inr b" by auto
  have "every p fs = Inr (\<forall>f \<in> set fs. p f = Inr True)" using Cons by simp
  then show ?case using b by (cases b) auto
qed

lemma hasOwnProperty_throws:
  "throws_on item \<Longrightarrow> hasOwnProperty item field = Inl TypeError"
  by (cases item) simp_all

lemma keep_item_throws: "throws_on item \<Longrightarrow> keep_item item = Inl TypeError"
  by (simp add: keep_item_def requiredFields_def field_present_def hasOwnProperty_throws)

lemma field_present_obj:
  "''hasOwnProperty'' \<notin> set (map fst kvs) \<Longrightarrow>
   field_present (JObj kvs) f =
     Inr (f \<in> set (map fst kvs) \<and> get_prop (JObj kvs) f \<noteq> JNull \<and> get_prop (JObj kvs) f \<noteq> JUndefined)"
  by (simp add: field_present_def)

lemma keep_item_obj:
  assumes "''hasOwnProperty'' \<notin> set (map fst kvs)"
  shows "keep_item (JObj kvs) = Inr (retained (JObj kvs))"
proof -
  have p: "every (field_present (JObj kvs)) requiredFields =
        Inr (\<forall>f \<in> set requiredFields. field_present (JObj kvs) f = Inr True)"
    by (rule every_Inr) (simp add: field_present_obj[OF assms])
  have n: "every (field_numeric (JObj kvs)) numericFields =
        Inr (\<forall>f \<in> set numericFields. field_numeric (JObj kvs) f = Inr True)"
    by (rule every_Inr) (simp add: field_numeric_def)
  show ?thesis
    unfolding keep_item_def p n
    by (auto simp: retained_def field_present_obj[OF assms] field_numeric_def)
qed

lemma id_not_index: "''id'' \<notin> set (index_names n)"
proof -
  have ne: "show_nat i \<noteq> ''id''" for i
    by (subst show_nat.simps) (auto simp: digit_char_def nth_Cons' split: if_splits)
  show ?thesis
  proof
    assume "''id'' \<in> set (index_names n)"
    then obtain i where "show_nat i = ''id''" by (auto simp: index_names_def)
    with ne show False by blast
  qed
qed

lemma keep_item_other:
  assumes "\<not> throws_on item" "\<forall>kvs. item \<noteq> JObj kvs"
  shows "keep_item item = Inr False"
  using assms
  by (cases item) (simp_all add: keep_item_def requiredFields_def field_present_def id_not_index)

lemma keep_item_answers:
  "\<not> throws_on item \<Longrightarrow> keep_item item = Inr (retained item)"
proof (cases "\<exists>kvs. item = JObj kvs")
  case True
  assume "\<not> throws_on item"
  with True show ?thesis by (auto simp: keep_item_obj)
next
  case False
  assume "\<not> throws_on item"
  with False have "keep_item item = Inr False" by (intro keep_item_other) auto
  moreover have "\<not> retained item" using False by (cases item) (simp_all add: retained_def)
  ultimately show ?thesis by simp
qed

lemma keep_item_cases:
  "keep_item item = (if throws_on item then Inl TypeError else Inr (retained item))"
  by (simp add: keep_item_throws keep_item_answers)

lemma validate_array:
  "validateAndCleanData (JArr xs) =
     (if \<exists>x \<in> set xs. throws_on x then Inl TypeError else Inr (filter retained xs))"
proof (induction xs)
  case Nil
  then show ?case by (simp add: validateAndCleanData_def)
next
  case (Cons x xs)
  then show ?case
    by (auto simp: validateAndCleanData_def keep_item_cases split: sum.splits)
qed

lemma validate_not_array:
  "(\<forall>xs. data \<noteq> JArr xs) \<Longrightarrow> validateAndCleanData data = Inl DataNotArray"
  by (cases data) (simp_all add: validateAndCleanData_def)

section \<open>Properties of the aggregators\<close>

subsection \<open>Batch groups and streaming buffers\<close>

lemma map_push_map:
  "map (\<lambda>(k, b). (k, map f b)) (map_push key x G) =
   map_push key (f x) (map (\<lambda>(k, b). (k, map f b)) G)"
  by (induction G) auto

lemma group_values:
  "map (\<lambda>(k, items). (k, values_of items))
     (foldl (\<lambda>g item. map_push (get_prop item label) item g) G data) =
   value_groups label (map (\<lambda>(k, items). (k, values_of items)) G) data"
proof (induction data arbitrary: G)
  case Nil
  then show ?case by (simp add: value_groups_def)
next
  case (Cons x data)
  have "map (\<lambda>(k, items). (k, values_of items)) (map_push (get_prop x label) x G) =
        map_push (get_prop x label) (to_number (get_prop x ''value''))
          (map (\<lambda>(k, items). (k, values_of items)) G)"
    using map_push_map[of "\<lambda>item. to_number (get_prop item ''value'')" "get_prop x label" x G]
    by (simp add: values_of_def)
  then show ?case using Cons[of "map_push (get_prop x label) x G"]
    by (simp add: value_groups_def)
qed

lemma batch_groups:
  "map (\<lambda>(k, items). (k, values_of items))
     (performantGroupBy data (\<lambda>item. get_prop item label)) =
   value_groups label [] data"
  using group_values[of label "[]" data] by (simp add: performantGroupBy_def)

lemma value_groups_append:
  "value_groups label G (xs @ ys) = value_groups label (value_groups label G xs) ys"
  by (simp add: value_groups_def)

lemma update_items_region:
  "st_byRegion (foldl update_item st items) = value_groups ''region'' (st_byRegion st) items"
  by (induction items arbitrary: st) (simp_all add: value_groups_def update_item_def Let_def)

lemma update_items_resource:
  "st_byResource (foldl update_item st items) = value_groups ''resource'' (st_byResource st) items"
  by (induction items arbitrary: st) (simp_all add: value_groups_def update_item_def Let_def)

lemma update_items_weights:
  "st_weights (foldl update_item st items) = st_weights st @ weights_of items"
  by (induction items arbitrary: st) (simp_all add: weights_of_def update_item_def Let_def)

lemma compact_keeps_groups:
  "st_byRegion (compact_weights st) = st_byRegion st"
  "st_byResource (compact_weights st) = st_byResource st"
  by (simp_all add: compact_weights_def)

lemma process_chunk_array:
  "process_chunk st (JArr c) =
     (if \<exists>x \<in> set c. throws_on x then Inl TypeError
      else Inr (compact_weights (foldl update_item st (filter retained c))))"
  by (simp add: process_chunk_def validate_array)

lemma process_stream_throws:
  "\<exists>x \<in> set (concat css). throws_on x \<Longrightarrow> process_stream st (map JArr css) = Inl TypeError"
proof (induction css arbitrary: st)
  case Nil
  then show ?case by simp
next
  case (Cons c css)
  show ?case
  proof (cases "\<exists>x \<in> set c. throws_on x")
    case True
    then show ?thesis by (simp add: process_chunk_array)
  next
    case False
    with Cons.prems have "\<exists>x \<in> set (concat css). throws_on x" by auto
    then show ?thesis using False Cons.IH by (simp add: process_chunk_array)
  qed
qed

lemma process_stream_groups:
  assumes "\<not> (\<exists>x \<in> set (concat css). throws_on x)"
  shows "\<exists>st'. process_stream st (map JArr css) = Inr st' \<and>
           st_byRegion st' = value_groups ''region'' (st_byRegion st) (filter retained (concat css)) \<and>
           st_byResource st' =
             value_groups ''resource'' (st_byResource st) (filter retained (concat css))"
  using assms
proof (induction css arbitrary: st)
  case Nil
  then show ?case by (simp add: value_groups_def)
next
  case (Cons c css)
  let ?st1 = "compact_weights (foldl update_item st (filter retained c))"
  have c: "process_chunk st (JArr c) = Inr ?st1"
    using Cons.prems by (simp add: process_chunk_array)
  have "\<not> (\<exists>x \<in> set (concat css). throws_on x)" using Cons.prems by auto
  from Cons.IH[OF this, of ?st1] obtain st' where
    s: "process_stream ?st1 (map JArr css) = Inr st'"
    and r: "st_byRegion st' =
            value_groups ''region'' (st_byRegion ?st1) (filter retained (concat css))"
    and q: "st_byResource st' =
            value_groups ''resource'' (st_byResource ?st1) (filter retained (concat css))"
    by blast
  show ?case
    using c s r q
    by (simp add: compact_keeps_groups update_items_region update_items_resource
        value_groups_append)
qed

lemma stream_result_groups:
  "map_sum id (\<lambda>s. (sr_byRegion s, sr_byResource s))
     (calculateStatisticsStream txt (map JArr css)) =
   (if \<exists>x \<in> set (concat css). throws_on x then Inl TypeError
    else Inr (summarize_groups txt (value_groups ''region'' [] (filter retained (concat css))),
              summarize_groups txt (value_groups ''resource'' [] (filter retained (concat css)))))"
proof (cases "\<exists>x \<in> set (concat css). throws_on x")
  case True
  then show ?thesis
    using process_stream_throws[OF True, of initial_stats]
    by (simp add: calculateStatisticsStream_def)
next
  case False
  from process_stream_groups[OF False, of initial_stats] obtain st' where
    "process_stream initial_stats (map JArr css) = Inr st'"
    "st_byRegion st' = value_groups ''region'' [] (filter retained (concat css))"
    "st_byResource st' = value_groups ''resource'' [] (filter retained (concat css))"
    by (auto simp: initial_stats_def)
  then show ?thesis using False
    by (simp add: calculateStatisticsStream_def finish_stream_def)
qed

lemma batch_result_groups:
  assumes "calculateStatistics txt (JArr xs) = Inr b"
  shows "\<not> (\<exists>x \<in> set xs. throws_on x) \<and>
         byRegion b = summarize_groups txt (value_groups ''region'' [] (filter retained xs)) \<and>
         byResource b = summarize_groups txt (value_groups ''resource'' [] (filter retained xs))"
  using assms
  by (auto simp: calculateStatistics_def validate_array batch_groups split: if_splits sum.splits)

text \<open>
  Claim C4. For a sequence of records with at least one valid record, cut into chunks in
  any way, \<^verbatim>\<open>calculateStatisticsStream\<close> over the chunks gives the same \<open>byRegion\<close> and
  \<open>byResource\<close> as \<^verbatim>\<open>calculateStatistics\<close> over the whole sequence; and two ways of cutting
  the same records give the same two summaries. (A batch call that returns is a call on a
  sequence with a valid record. The two summaries do not depend on the weight buffer, so
  the proviso on its length is not needed.)
\<close>

theorem stream_equals_batch:
  "(calculateStatistics txt (JArr (concat css)) = Inr b \<longrightarrow>
      (\<exists>s. calculateStatisticsStream txt (map JArr css) = Inr s \<and>
           sr_byRegion s = byRegion b \<and> sr_byResource s = byResource b)) \<and>
   (concat css = concat css' \<longrightarrow>
      map_sum id (\<lambda>s. (sr_byRegion s, sr_byResource s))
        (calculateStatisticsStream txt (map JArr css)) =
      map_sum id (\<lambda>s. (sr_byRegion s, sr_byResource s))
        (calculateStatisticsStream txt (map JArr css')))"
proof (intro conjI impI)
  assume b: "calculateStatistics txt (JArr (concat css)) = Inr b"
  note g = batch_result_groups[OF b]
  have "map_sum id (\<lambda>s. (sr_byRegion s, sr_byResource s))
          (calculateStatisticsStream txt (map JArr css)) = Inr (byRegion b, byResource b)"
    using g by (simp add: stream_result_groups)
  then show "\<exists>s. calculateStatisticsStream txt (map JArr css) = Inr s \<and>
           sr_byRegion s = byRegion b \<and> sr_byResource s = byResource b"
    by (cases "calculateStatisticsStream txt (map JArr css)") auto
next
  assume "concat css = concat css'"
  then show "map_sum id (\<lambda>s. (sr_byRegion s, sr_byResource s))
        (calculateStatisticsStream txt (map JArr css)) =
      map_sum id (\<lambda>s. (sr_byRegion s, sr_byResource s))
        (calculateStatisticsStream txt (map JArr css'))"
    by (simp add: stream_result_groups)
qed

subsection \<open>The weight buffer\<close>

lemma median_sort_numeric:
  "statsCalculators_median (sort_numeric w) = statsCalculators_median w"
  by (rule median_mset_cong) (simp add: sort_numeric_def)

lemma process_chunk_weights:
  assumes "validateAndCleanData chunk = Inr clean"
  shows "\<exists>st'. process_chunk st chunk = Inr st' \<and>
           st_weights st' =
             (if weight_limit < length (st_weights st @ weights_of clean)
              then [statsCalculators_median (sort_numeric (st_weights st @ weights_of clean))]
              else st_weights st @ weights_of clean)"
  using assms by (simp add: process_chunk_def compact_weights_def update_items_weights)

lemma compact_bound: "length (st_weights (compact_weights st)) \<le> weight_limit"
  by (simp add: compact_weights_def weight_limit_def)

lemma process_chunk_bound:
  "process_chunk st chunk = Inr st' \<Longrightarrow> length (st_weights st') \<le> weight_limit"
  by (auto simp: process_chunk_def compact_bound split: sum.splits)

lemma process_stream_bound:
  "length (st_weights st0) \<le> weight_limit \<Longrightarrow> process_stream st0 chunks = Inr st \<Longrightarrow>
   length (st_weights st) \<le> weight_limit"
proof (induction chunks arbitrary: st0)
  case Nil
  then show ?case by simp
next
  case (Cons c chunks)
  from Cons.prems(2) obtain st1 where
    c: "process_chunk st0 c = Inr st1" and r: "process_stream st1 chunks = Inr st"
    by (auto split: sum.splits)
  from process_chunk_bound[OF c] r show ?case by (rule Cons.IH)
qed

lemma stream_final_weights:
  "calculateStatisticsStream txt chunks = Inr r \<Longrightarrow>
   \<exists>st. process_stream initial_stats chunks = Inr st \<and>
        sr_globalWeight r = weight_stats (st_weights st)"
  by (auto simp: calculateStatisticsStream_def finish_stream_def split: sum.splits)

lemma weighted_ok: "retained (weighted w)" "\<not> throws_on (weighted w)"
  "to_number (get_prop (weighted w) ''weight'') = Fin w"
  by (simp_all add: weighted_def mk_record_def retained_def requiredFields_def numericFields_def)

lemma validate_replicate_weighted:
  "validateAndCleanData (JArr (replicate n (weighted w))) = Inr (replicate n (weighted w))"
  by (simp add: validate_array weighted_ok)

lemma weights_replicate_weighted:
  "weights_of (replicate n (weighted w)) = replicate n (Fin w)"
  by (simp add: weights_of_def weighted_ok)

lemma median_replicate_odd:
  assumes "odd n"
  shows "statsCalculators_median (replicate n (Fin w)) = Fin w"
proof -
  have f: "finite_entries (replicate n (Fin w)) = replicate n (Fin w)"
    by (simp add: finite_entries_def)
  have "sorted (map num_key (replicate n (Fin w)))"
    by simp
  then have s: "sorted_entries (replicate n (Fin w)) = replicate n (Fin w)"
    unfolding sorted_entries_def sort_numeric_def f by (rule sort_key_id_if_sorted)
  have "n div 2 < n" using assms by (cases n) auto
  then show ?thesis
    using median_odd[of "replicate n (Fin w)"] assms by (simp add: f s)
qed

lemma odd_Suc_limit: "odd (Suc weight_limit)"
  by (simp add: weight_limit_def)

lemma update_items_take:
  "length (st_weights (foldl update_item st (take k clean))) =
   length (st_weights st) + min k (length clean)"
  by (simp add: update_items_weights weights_of_def min.commute)

lemma validate_length:
  "validateAndCleanData (JArr c) = Inr clean \<Longrightarrow> length clean \<le> length c"
  by (auto simp: validate_array split: if_splits)

text \<open>
  Claim C7. After the records of a chunk, a weight buffer of more than 100000 entries is
  sorted and replaced by the buffer that holds its median alone; the weights that follow
  are appended to that buffer; and the final \<open>globalWeight\<close> is the maximum, minimum and
  median of the buffer that remains. (Sorting changes neither the entries nor the median.)
\<close>

theorem weight_compaction:
  "(validateAndCleanData chunk = Inr clean \<longrightarrow>
      (\<exists>st'. process_chunk st chunk = Inr st' \<and>
         st_weights st' =
           (if weight_limit < length (st_weights st @ weights_of clean)
            then [statsCalculators_median (sort_numeric (st_weights st @ weights_of clean))]
            else st_weights st @ weights_of clean))) \<and>
   mset (sort_numeric w) = mset w \<and>
   sorted (map num_key (sort_numeric w)) \<and>
   statsCalculators_median (sort_numeric w) = statsCalculators_median w \<and>
   (calculateStatisticsStream txt chunks = Inr r \<longrightarrow>
      (\<exists>s. process_stream initial_stats chunks = Inr s \<and>
           sr_globalWeight r =
             \<lparr> w_max = statsCalculators_max (st_weights s),
               w_min = statsCalculators_min (st_weights s),
               w_median = statsCalculators_median (st_weights s) \<rparr>)) \<and>
   weight_limit = 100000"
proof -
  have a: "mset (sort_numeric w) = mset w" "sorted (map num_key (sort_numeric w))"
    by (simp_all add: sort_numeric_def)
  have b: "calculateStatisticsStream txt chunks = Inr r \<longrightarrow>
      (\<exists>s. process_stream initial_stats chunks = Inr s \<and>
           sr_globalWeight r =
             \<lparr> w_max = statsCalculators_max (st_weights s),
               w_min = statsCalculators_min (st_weights s),
               w_median = statsCalculators_median (st_weights s) \<rparr>)"
    using stream_final_weights[of "txt" "chunks" "r"] by (simp add: weight_stats_def)
  show ?thesis
    using process_chunk_weights[of "chunk" "clean" "st"] a b median_sort_numeric[of "w"]
    by (simp add: weight_limit_def)
qed

subsection \<open>Evaluation on concrete records\<close>

lemma dbl_small: "\<bar>q\<bar> \<le> 10 ^ 30 \<Longrightarrow> dbl q = Fin q"
proof -
  assume "\<bar>q\<bar> \<le> 10 ^ 30"
  moreover have "(10::rat) ^ 30 \<le> 10 ^ 300" by simp
  ultimately have "\<bar>q\<bar> \<le> 10 ^ 300" by linarith
  then show ?thesis by (intro dbl_Fin small_bound)
qed

lemma add_small30:
  "\<bar>a\<bar> \<le> 10 ^ 30 \<Longrightarrow> \<bar>b\<bar> \<le> 10 ^ 30 \<Longrightarrow> precisionHelper_add (JNum (Fin a)) (JNum (Fin b)) =
         Fin (of_int \<lfloor>(a + b) * 1000000 + 1 / 2\<rfloor> / 1000000)"
proof -
  assume a: "\<bar>a\<bar> \<le> 10 ^ 30" "\<bar>b\<bar> \<le> 10 ^ 30"
  have "(10::rat) ^ 30 \<le> 10 ^ 100" by simp
  then have "\<bar>a\<bar> \<le> 10 ^ 100" "\<bar>b\<bar> \<le> 10 ^ 100" using a by linarith+
  then show ?thesis by (rule add_small)
qed

lemma divide_small30:
  "\<bar>a / b\<bar> \<le> 10 ^ 30 \<Longrightarrow> b \<noteq> 0 \<Longrightarrow> precisionHelper_divide (JNum (Fin a)) (JNum (Fin b)) =
         Fin (of_int \<lfloor>a / b * 1000000 + 1 / 2\<rfloor> / 1000000)"
proof -
  assume a: "\<bar>a / b\<bar> \<le> 10 ^ 30" "b \<noteq> 0"
  have "(10::rat) ^ 30 \<le> 10 ^ 200" by simp
  then have "\<bar>a / b\<bar> \<le> 10 ^ 200" using a by linarith
  then show ?thesis using a(2) by (rule divide_small)
qed

lemma show_nat_numeral:
  "show_nat (numeral k) =
     (if (numeral k :: nat) < 10 then [digit_char (numeral k)]
      else show_nat (numeral k div 10) @ [digit_char (numeral k mod 10)])"
  by (rule show_nat.simps)

lemma show_nat_0: "show_nat 0 = ''0''" by (simp add: show_nat.simps digit_char_def)
lemma show_nat_1: "show_nat 1 = ''1''" by (simp add: show_nat.simps digit_char_def)
lemma show_nat_Suc0: "show_nat (Suc 0) = ''1''" by (simp add: show_nat.simps digit_char_def)

lemmas text_eval = number_to_string_def show_int_def show_nat_numeral show_nat_0 show_nat_1
  show_nat_Suc0 digit_char_def

lemma text_2020: "to_string txt (JNum (Fin 2020)) = ''2020''" by (simp add: text_eval)
lemma text_minus_15: "to_string txt (JNum (Fin (-15))) = ''-15''" by (simp add: text_eval)
lemma text_zero: "to_string txt (JNum (Fin 0)) = ''0''" by (simp add: text_eval)

lemmas number_eval = string_to_number_def trim_def is_ws_def radix_literal_def
  unsigned_decimal_def exponent_part_def digit_in_def hex_value_def
  digits_value_def scale10_def num_neg_def dbl_small Let_def

lemmas validate_eval = validateAndCleanData_def keep_item_def requiredFields_def
  numericFields_def field_present_def field_numeric_def index_names_def

lemma keep_a: "keep_item coerced_a = Inr True"
  by (simp add: validate_eval number_eval coerced_a_def mk_record_def)
lemma keep_b: "keep_item coerced_b = Inr True"
  by (simp add: validate_eval number_eval coerced_b_def mk_record_def)

lemma valid_ab: "validateAndCleanData (JArr [coerced_a, coerced_b]) = Inr [coerced_a, coerced_b]"
  by (simp add: validateAndCleanData_def keep_a keep_b)

lemma props_a: "get_prop coerced_a ''region'' = JStr ''Asia''"
  "get_prop coerced_a ''resource'' = JStr ''Cereals''"
  "get_prop coerced_a ''year'' = JStr ''2020''"
  "to_number (get_prop coerced_a ''value'') = Fin 0"
  "to_number (get_prop coerced_a ''weight'') = Fin 1"
  by (simp_all add: coerced_a_def mk_record_def number_eval)

lemma props_b: "get_prop coerced_b ''region'' = JStr ''Asia''"
  "get_prop coerced_b ''resource'' = JStr ''Cereals''"
  "get_prop coerced_b ''year'' = JNum (Fin 2020)"
  "to_number (get_prop coerced_b ''value'') = Fin 10"
  "to_number (get_prop coerced_b ''weight'') = Fin 0"
  by (simp_all add: coerced_b_def mk_record_def number_eval)

lemmas stats_eval = createStatsSummary_def statsCalculators_sum_def statsCalculators_mean_def
  statsCalculators_max_def statsCalculators_min_def math_max_def math_min_def max2_def min2_def
  statsCalculators_median_def sorted_entries_def finite_entries_def
  sort_numeric_def js_index_def Let_def add_small30 divide_small30 add_undefined

lemma summary_0_10: "createStatsSummary [Fin 0, Fin 10] =
   \<lparr> s_sum = Fin 10, s_mean = Fin 5, s_max = Fin 10, s_min = Fin 0, s_median = Fin 5, s_count = 2 \<rparr>"
  by (simp add: stats_eval)

lemma wstats_1_0: "weight_stats [Fin 1, Fin 0] = \<lparr> w_max = Fin 1, w_min = Fin 0, w_median = Fin (1/2) \<rparr>"
  by (simp add: weight_stats_def stats_eval)

lemma calc_ab:
  "calculateStatistics txt (JArr [coerced_a, coerced_b]) =
     Inr \<lparr> byRegion = [(''Asia'', createStatsSummary [Fin 0, Fin 10])],
           byRegionAndYear = [(''Asia'', [(''2020'', createStatsSummary [Fin 0, Fin 10])])],
           byResource = [(''Cereals'', createStatsSummary [Fin 0, Fin 10])],
           globalWeight = weight_stats [Fin 1, Fin 0] \<rparr>"
  by (simp add: calculateStatistics_def valid_ab performantGroupBy_def props_a props_b
     values_of_def weights_of_def summarize_groups_def regionYearKey_def store_region_year_def
     assign_prop_def inherited_functions_def
     piece_def split_key_def Let_def text_eval)


lemma stream_ab:
  "calculateStatisticsStream txt [JArr [coerced_a], JArr [coerced_b]] =
     Inr \<lparr> sr_byRegion = [(''Asia'', createStatsSummary [Fin 0, Fin 10])],
           sr_byResource = [(''Cereals'', createStatsSummary [Fin 0, Fin 10])],
           sr_globalWeight = weight_stats [Fin 1, Fin 0] \<rparr>"
  by (simp add: calculateStatisticsStream_def process_chunk_def validateAndCleanData_def
      keep_a keep_b initial_stats_def update_item_def props_a props_b compact_weights_def
      weight_limit_def finish_stream_def summarize_groups_def assign_prop_def Let_def)

theorem stream_equals_batch_witness:
  "calculateStatistics no_text (JArr (concat [[coerced_a], [coerced_b]])) =
     Inr \<lparr> byRegion = [(''Asia'', createStatsSummary [Fin 0, Fin 10])],
           byRegionAndYear = [(''Asia'', [(''2020'', createStatsSummary [Fin 0, Fin 10])])],
           byResource = [(''Cereals'', createStatsSummary [Fin 0, Fin 10])],
           globalWeight = weight_stats [Fin 1, Fin 0] \<rparr> \<and>
   (\<exists>s. calculateStatisticsStream no_text (map JArr [[coerced_a], [coerced_b]]) = Inr s \<and>
        sr_byRegion s = [(''Asia'', createStatsSummary [Fin 0, Fin 10])] \<and>
        sr_byResource s = [(''Cereals'', createStatsSummary [Fin 0, Fin 10])]) \<and>
   concat [[coerced_a], [coerced_b]] = concat [[coerced_a, coerced_b]] \<and>
   map_sum id (\<lambda>s. (sr_byRegion s, sr_byResource s))
     (calculateStatisticsStream no_text (map JArr [[coerced_a], [coerced_b]])) =
   map_sum id (\<lambda>s. (sr_byRegion s, sr_byResource s))
     (calculateStatisticsStream no_text (map JArr [[coerced_a, coerced_b]]))"
proof -
  let ?b = "\<lparr> byRegion = [(''Asia'', createStatsSummary [Fin 0, Fin 10])],
           byRegionAndYear = [(''Asia'', [(''2020'', createStatsSummary [Fin 0, Fin 10])])],
           byResource = [(''Cereals'', createStatsSummary [Fin 0, Fin 10])],
           globalWeight = weight_stats [Fin 1, Fin 0] \<rparr>"
  have b: "calculateStatistics no_text (JArr (concat [[coerced_a], [coerced_b]])) = Inr ?b"
    using calc_ab[of no_text] by simp
  have c: "concat [[coerced_a], [coerced_b]] = concat [[coerced_a, coerced_b]]" by simp
  note t = stream_equals_batch[of no_text "[[coerced_a], [coerced_b]]" ?b
      "[[coerced_a, coerced_b]]"]
  have 1: "\<exists>s. calculateStatisticsStream no_text (map JArr [[coerced_a], [coerced_b]]) = Inr s \<and>
        sr_byRegion s = byRegion ?b \<and> sr_byResource s = byResource ?b"
    using t b by blast
  have 2: "map_sum id (\<lambda>s. (sr_byRegion s, sr_byResource s))
     (calculateStatisticsStream no_text (map JArr [[coerced_a], [coerced_b]])) =
   map_sum id (\<lambda>s. (sr_byRegion s, sr_byResource s))
     (calculateStatisticsStream no_text (map JArr [[coerced_a, coerced_b]]))"
    using t c by blast
  show ?thesis using b c 1 2 by simp
qed

lemma heavy_chunk_weights:
  "\<exists>st'. process_chunk initial_stats (JArr (replicate (Suc weight_limit) (weighted 50))) = Inr st' \<and>
         st_weights st' = [Fin 50]"
proof -
  let ?n = "Suc weight_limit"
  have v: "validateAndCleanData (JArr (replicate ?n (weighted 50))) =
           Inr (replicate ?n (weighted 50))"
    by (rule validate_replicate_weighted)
  have w: "st_weights initial_stats @ weights_of (replicate ?n (weighted 50)) =
           replicate ?n (Fin 50)"
    unfolding weights_replicate_weighted by (simp add: initial_stats_def del: replicate_Suc)
  have l: "weight_limit < length (replicate ?n (Fin 50 :: num))"
    unfolding length_replicate by simp
  have m: "statsCalculators_median (sort_numeric (replicate ?n (Fin 50))) = Fin 50"
    unfolding median_sort_numeric by (rule median_replicate_odd) (rule odd_Suc_limit)
  from process_chunk_weights[OF v, of initial_stats] show ?thesis
    unfolding w using l m by (simp del: replicate_Suc)
qed

section \<open>The weight buffer, the failures and the converted fields\<close>

theorem weight_compaction_witness:
  "validateAndCleanData (JArr (replicate (Suc weight_limit) (weighted 50))) =
     Inr (replicate (Suc weight_limit) (weighted 50)) \<and>
   (\<exists>st'. process_chunk initial_stats (JArr (replicate (Suc weight_limit) (weighted 50))) = Inr st' \<and>
         st_weights st' = [Fin 50]) \<and>
   (\<exists>r. calculateStatisticsStream no_text
          [JArr (replicate (Suc weight_limit) (weighted 50)), JArr [weighted 7]] = Inr r \<and>
        sr_globalWeight r = \<lparr> w_max = Fin 50, w_min = Fin 7, w_median = Fin (57 / 2) \<rparr>)"
proof -
  let ?n = "Suc weight_limit"
  let ?c1 = "JArr (replicate ?n (weighted 50))"
  let ?c2 = "JArr [weighted 7]"
  have v1: "validateAndCleanData ?c1 = Inr (replicate ?n (weighted 50))"
    by (rule validate_replicate_weighted)
  have w: "st_weights initial_stats @ weights_of (replicate ?n (weighted 50)) =
           replicate ?n (Fin 50)"
    unfolding weights_replicate_weighted by (simp add: initial_stats_def del: replicate_Suc)
  have l: "weight_limit < length (replicate ?n (Fin 50 :: num))"
    unfolding length_replicate by simp
  have m: "statsCalculators_median (sort_numeric (replicate ?n (Fin 50))) = Fin 50"
    unfolding median_sort_numeric by (rule median_replicate_odd) (rule odd_Suc_limit)
  have "\<exists>st'. process_chunk initial_stats ?c1 = Inr st' \<and>
         st_weights st' =
           (if weight_limit < length (st_weights initial_stats @ weights_of (replicate ?n (weighted 50)))
            then [statsCalculators_median
                   (sort_numeric (st_weights initial_stats @ weights_of (replicate ?n (weighted 50))))]
            else st_weights initial_stats @ weights_of (replicate ?n (weighted 50)))"
    using weight_compaction[of ?c1 "replicate ?n (weighted 50)" initial_stats] v1 by blast
  then obtain st1 where s1: "process_chunk initial_stats ?c1 = Inr st1"
    and w1: "st_weights st1 = [Fin 50]"
    unfolding w using l m by (auto simp del: replicate_Suc)
  have v2: "validateAndCleanData ?c2 = Inr [weighted 7]"
    using validate_replicate_weighted[of 1 7] by simp
  have "\<exists>st'. process_chunk st1 ?c2 = Inr st' \<and>
         st_weights st' =
           (if weight_limit < length (st_weights st1 @ weights_of [weighted 7])
            then [statsCalculators_median (sort_numeric (st_weights st1 @ weights_of [weighted 7]))]
            else st_weights st1 @ weights_of [weighted 7])"
    using weight_compaction[of ?c2 "[weighted 7]" st1] v2 by blast
  then obtain st2 where s2: "process_chunk st1 ?c2 = Inr st2"
    and w2: "st_weights st2 = [Fin 50, Fin 7]"
    by (auto simp: w1 weights_of_def weighted_ok weight_limit_def)
  have r: "calculateStatisticsStream no_text [?c1, ?c2] = Inr (finish_stream no_text st2)"
    using s1 s2 by (simp add: calculateStatisticsStream_def del: replicate_Suc)
  have g: "sr_globalWeight (finish_stream no_text st2) =
           \<lparr> w_max = Fin 50, w_min = Fin 7, w_median = Fin (57 / 2) \<rparr>"
    by (simp add: finish_stream_def w2 weight_stats_def stats_eval)
  show ?thesis using v1 s1 w1 r g by blast
qed

text \<open>
  Claim C9. After each chunk, that is, at the end of every prefix of the stream, the
  weight buffer holds at most 100000 entries. While a chunk is processed the buffer
  grows by one entry per valid record and is compacted only after the last one, so that
  it holds at most 100000 entries plus the size of the chunk; a first chunk of 100001
  valid records brings it to 100001 entries.
\<close>

theorem weight_buffer_bound:
  "(process_stream initial_stats chunks = Inr st \<longrightarrow> length (st_weights st) \<le> weight_limit) \<and>
   (length (st_weights st0) \<le> weight_limit \<and> validateAndCleanData (JArr c) = Inr clean \<longrightarrow>
      process_chunk st0 (JArr c) = Inr (compact_weights (foldl update_item st0 clean)) \<and>
      (\<forall>k. length (st_weights (foldl update_item st0 (take k clean))) =
           length (st_weights st0) + min k (length clean)) \<and>
      length (st_weights (foldl update_item st0 clean)) \<le> weight_limit + length c) \<and>
   length (st_weights (foldl update_item initial_stats (replicate (Suc weight_limit) (weighted 50)))) =
     Suc weight_limit \<and>
   weight_limit = 100000"
proof -
  have a: "process_stream initial_stats chunks = Inr st \<longrightarrow> length (st_weights st) \<le> weight_limit"
    using process_stream_bound[of initial_stats "chunks" st] by (simp add: initial_stats_def)
  have b: "length (st_weights st0) \<le> weight_limit \<and> validateAndCleanData (JArr c) = Inr clean \<longrightarrow>
      process_chunk st0 (JArr c) = Inr (compact_weights (foldl update_item st0 clean)) \<and>
      (\<forall>k. length (st_weights (foldl update_item st0 (take k clean))) =
           length (st_weights st0) + min k (length clean)) \<and>
      length (st_weights (foldl update_item st0 clean)) \<le> weight_limit + length c"
  proof (intro impI conjI allI)
    assume h: "length (st_weights st0) \<le> weight_limit \<and> validateAndCleanData (JArr c) = Inr clean"
    then show "process_chunk st0 (JArr c) = Inr (compact_weights (foldl update_item st0 clean))"
      by (simp add: process_chunk_def)
    show "length (st_weights (foldl update_item st0 (take k clean))) =
           length (st_weights st0) + min k (length clean)" for k
      by (rule update_items_take)
    have "length clean \<le> length c" using h validate_length by blast
    then show "length (st_weights (foldl update_item st0 clean)) \<le> weight_limit + length c"
      using h by (simp add: update_items_weights weights_of_def)
  qed
  have c: "length (st_weights (foldl update_item initial_stats
              (replicate (Suc weight_limit) (weighted 50)))) = Suc weight_limit"
    unfolding update_items_weights weights_replicate_weighted
    by (simp add: initial_stats_def del: replicate_Suc)
  show ?thesis using a b c by (simp add: weight_limit_def del: replicate_Suc)
qed

theorem weight_buffer_bound_witness:
  "(\<exists>st. process_stream initial_stats [JArr (replicate (Suc weight_limit) (weighted 50))] = Inr st \<and>
         length (st_weights st) \<le> weight_limit) \<and>
   length (st_weights initial_stats) \<le> weight_limit \<and>
   validateAndCleanData (JArr (replicate (Suc weight_limit) (weighted 50))) =
     Inr (replicate (Suc weight_limit) (weighted 50)) \<and>
   weight_limit <
     length (st_weights (foldl update_item initial_stats (replicate (Suc weight_limit) (weighted 50)))) \<and>
   length (st_weights (foldl update_item initial_stats (replicate (Suc weight_limit) (weighted 50))))
     \<le> weight_limit + length (replicate (Suc weight_limit) (weighted 50))"
proof -
  let ?n = "Suc weight_limit"
  let ?c = "replicate ?n (weighted 50)"
  have v: "validateAndCleanData (JArr ?c) = Inr ?c"
    by (rule validate_replicate_weighted)
  have i: "length (st_weights initial_stats) \<le> weight_limit"
    by (simp add: initial_stats_def)
  obtain st where s: "process_chunk initial_stats (JArr ?c) = Inr st"
    using heavy_chunk_weights by blast
  then have p: "process_stream initial_stats [JArr ?c] = Inr st"
    by (simp del: replicate_Suc)
  note t = weight_buffer_bound[of "[JArr ?c]" st initial_stats ?c ?c]
  have 1: "length (st_weights st) \<le> weight_limit" using t p by blast
  have 2: "length (st_weights (foldl update_item initial_stats ?c)) \<le> weight_limit + length ?c"
    using t i v by blast
  have 3: "length (st_weights (foldl update_item initial_stats ?c)) = Suc weight_limit"
    using t by blast
  have 4: "weight_limit < length (st_weights (foldl update_item initial_stats ?c))"
    unfolding 3 by simp
  show ?thesis using p 1 i v 4 2 by blast
qed

text \<open>
  Claim C2. \<^verbatim>\<open>validateAndCleanData\<close> is said to fail only when its input is not an
  array, and to drop silently every element that it does not retain, \<open>null\<close> and
  \<open>undefined\<close> elements included.

  On an array with a \<open>null\<close> or \<open>undefined\<close> element the filter calls
  \<^verbatim>\<open>item.hasOwnProperty\<close> on that element, which throws a \<open>TypeError\<close>: the call fails
  although the input is an array, and the valid records beside it are lost.
\<close>

theorem validator_throws_on_null:
  "validateAndCleanData (JArr [JNull]) = Inl TypeError \<and>
   validateAndCleanData (JArr [JUndefined]) = Inl TypeError \<and>
   validateAndCleanData (JArr [JNull, coerced_a]) = Inl TypeError"
  by (simp add: validate_array)

lemma batch_outcomes:
  "calculateStatistics txt (JArr xs) =
     (if \<exists>x \<in> set xs. throws_on x then Inl TypeError
      else if filter retained xs = [] then Inl NoValidRecords
      else
        (case store_groups \<lparr> ry_own = [], ry_polluted = [] \<rparr>
                (performantGroupBy (filter retained xs) (\<lambda>item. JStr (regionYearKey txt item))) of
           Inl e \<Rightarrow> Inl e
         | Inr regionYear \<Rightarrow>
             Inr
               \<lparr> byRegion = summarize_groups txt (value_groups ''region'' [] (filter retained xs)),
                 byRegionAndYear = ry_own regionYear,
                 byResource =
                   summarize_groups txt (value_groups ''resource'' [] (filter retained xs)),
                 globalWeight = weight_stats (weights_of (filter retained xs)) \<rparr>))"
  by (simp add: calculateStatistics_def validate_array batch_groups split: sum.splits)

lemma batch_not_array:
  "(\<forall>xs. data \<noteq> JArr xs) \<Longrightarrow> calculateStatistics txt data = Inl DataNotArray"
  by (simp add: calculateStatistics_def validate_not_array)

text \<open>
  Claim C6. On every array, \<^verbatim>\<open>calculateStatistics\<close> is said to fail with the
  "no valid records" error exactly when no record survives validation, and to return a
  result otherwise. On arrays without an element on which the validator throws this is
  so, unless an assignment under an inherited name throws (lemma \<open>batch_outcomes\<close>). On \<^verbatim>\<open>[null]\<close> no record survives, and on
  \<^verbatim>\<open>[null, r]\<close> with a valid \<open>r\<close> one does; both calls fail with the \<open>TypeError\<close> of the
  validator, which is neither the "no valid records" error nor a result.
\<close>

theorem batch_throws_on_null:
  "calculateStatistics txt (JArr [JNull]) = Inl TypeError \<and>
   calculateStatistics txt (JArr [JNull, coerced_a]) = Inl TypeError \<and>
   TypeError \<noteq> NoValidRecords"
  by (simp add: batch_outcomes)

lemma retained_ab: "retained coerced_a" "retained coerced_b"
  "\<not> throws_on coerced_a" "\<not> throws_on coerced_b"
  using keep_a keep_b
  by (simp_all add: keep_item_cases coerced_a_def coerced_b_def mk_record_def split: if_splits)

text \<open>
  Claim C10. The validator retains the records whose year, value and weight convert to
  finite numbers, whatever their type: a numeric string, a boolean, the empty string and
  the empty array convert (\<^verbatim>\<open>Number("")\<close> and \<^verbatim>\<open>Number([])\<close> are 0, \<^verbatim>\<open>Number(true)\<close> is
  1); and the aggregators compute with the converted numbers, so that a value \<^verbatim>\<open>""\<close>
  counts as 0 in the statistics of its group.
\<close>

theorem coerced_fields_retained:
  "(validateAndCleanData (JArr xs) = Inr ys \<longrightarrow> ys = filter retained xs) \<and>
   (retained item \<and> \<not> throws_on item \<longrightarrow> validateAndCleanData (JArr [item]) = Inr [item]) \<and>
   (calculateStatistics txt (JArr xs) = Inr b \<longrightarrow>
      byRegion b = summarize_groups txt (value_groups ''region'' [] (filter retained xs)) \<and>
      byResource b = summarize_groups txt (value_groups ''resource'' [] (filter retained xs)) \<and>
      globalWeight b = weight_stats (weights_of (filter retained xs))) \<and>
   to_number (JStr '''') = Fin 0 \<and> to_number (JArr []) = Fin 0 \<and>
   to_number (JBool True) = Fin 1 \<and> to_number (JStr ''42'') = Fin 42 \<and>
   retained coerced_a \<and> retained coerced_b \<and>
   calculateStatistics txt (JArr [coerced_a, coerced_b]) =
     Inr \<lparr> byRegion =
             [(''Asia'', \<lparr> s_sum = Fin 10, s_mean = Fin 5, s_max = Fin 10, s_min = Fin 0,
                           s_median = Fin 5, s_count = 2 \<rparr>)],
           byRegionAndYear =
             [(''Asia'', [(''2020'', \<lparr> s_sum = Fin 10, s_mean = Fin 5, s_max = Fin 10,
                           s_min = Fin 0, s_median = Fin 5, s_count = 2 \<rparr>)])],
           byResource =
             [(''Cereals'', \<lparr> s_sum = Fin 10, s_mean = Fin 5, s_max = Fin 10, s_min = Fin 0,
                           s_median = Fin 5, s_count = 2 \<rparr>)],
           globalWeight = \<lparr> w_max = Fin 1, w_min = Fin 0, w_median = Fin (1 / 2) \<rparr> \<rparr>"
proof -
  have 1: "validateAndCleanData (JArr xs) = Inr ys \<longrightarrow> ys = filter retained xs"
    by (auto simp: validate_array split: if_splits)
  have 2: "retained item \<and> \<not> throws_on item \<longrightarrow> validateAndCleanData (JArr [item]) = Inr [item]"
    by (simp add: validate_array)
  have 3: "calculateStatistics txt (JArr xs) = Inr b \<longrightarrow>
      byRegion b = summarize_groups txt (value_groups ''region'' [] (filter retained xs)) \<and>
      byResource b = summarize_groups txt (value_groups ''resource'' [] (filter retained xs)) \<and>
      globalWeight b = weight_stats (weights_of (filter retained xs))"
    by (auto simp: batch_outcomes split: if_splits sum.splits)
  have 4: "to_number (JStr '''') = Fin 0" "to_number (JArr []) = Fin 0"
    "to_number (JBool True) = Fin 1" "to_number (JStr ''42'') = Fin 42"
    by (simp_all add: number_eval)
  show ?thesis
    using 1 2 3 4 retained_ab(1,2) calc_ab[of "txt"] summary_0_10 wstats_1_0 by simp
qed

theorem coerced_fields_retained_witness:
  "validateAndCleanData (JArr [coerced_a, JObj [(''id'', JStr ''3'')], coerced_b]) =
     Inr [coerced_a, coerced_b] \<and>
   retained coerced_b \<and> \<not> throws_on coerced_b \<and>
   validateAndCleanData (JArr [coerced_b]) = Inr [coerced_b] \<and>
   (\<exists>b. calculateStatistics no_text (JArr [coerced_a, coerced_b]) = Inr b \<and>
        globalWeight b = weight_stats [Fin 1, Fin 0])"
proof -
  let ?xs = "[coerced_a, JObj [(''id'', JStr ''3'')], coerced_b]"
  have n: "\<not> retained (JObj [(''id'', JStr ''3'')])" "\<not> throws_on (JObj [(''id'', JStr ''3'')])"
    by (simp_all add: retained_def requiredFields_def)
  have v: "validateAndCleanData (JArr ?xs) = Inr [coerced_a, coerced_b]"
    by (simp add: validate_array retained_ab n)
  note t = coerced_fields_retained[of "[coerced_a, coerced_b]" "[coerced_a, coerced_b]" coerced_b no_text]
  have 1: "validateAndCleanData (JArr [coerced_b]) = Inr [coerced_b]"
    using t retained_ab by blast
  obtain b where b: "calculateStatistics no_text (JArr [coerced_a, coerced_b]) = Inr b"
    using calc_ab[of no_text] by blast
  have "globalWeight b = weight_stats (weights_of (filter retained [coerced_a, coerced_b]))"
    using coerced_fields_retained[of "[coerced_a, coerced_b]" "[coerced_a, coerced_b]" coerced_b no_text b] b
    by blast
  then have 2: "globalWeight b = weight_stats [Fin 1, Fin 0]"
    by (simp add: retained_ab weights_of_def props_a props_b)
  show ?thesis using v retained_ab 1 b 2 by blast
qed

section \<open>The composite key of the breakdown by region and year\<close>

lemma split_bar_nonempty: "split_bar s \<noteq> []"
  by (induction s) (auto split: list.splits)

lemma split_bar_no_bar: "CHR ''|'' \<notin> set s \<Longrightarrow> split_bar s = [s]"
  by (induction s) auto

lemma split_bar_append:
  "CHR ''|'' \<notin> set s \<Longrightarrow> split_bar (s @ CHR ''|'' # t) = s # split_bar t"
proof (induction s)
  case Nil
  then show ?case by simp
next
  case (Cons c s)
  then show ?case by (auto split: list.splits)
qed

lemma split_key_plain:
  assumes "CHR ''|'' \<notin> set r" "CHR ''|'' \<notin> set y"
  shows "split_key (r @ ''|'' @ y) = (r, y)"
  using assms by (simp add: split_key_def split_bar_append split_bar_no_bar piece_def)

lemma bucket_plain:
  assumes "CHR ''|'' \<notin> set (to_string txt (get_prop a ''region''))"
    "CHR ''|'' \<notin> set (to_string txt (get_prop a ''year''))"
  shows "bucket txt a = (to_string txt (get_prop a ''region''), to_string txt (get_prop a ''year''))"
  unfolding bucket_def regionYearKey_def using assms by (rule split_key_plain)

lemma digit_char_value: "d < 10 \<Longrightarrow> hex_value (digit_char d) = Some d"
proof -
  assume "d < 10"
  then have "d \<in> {0, 1, 2, 3, 4, 5, 6, 7, 8, 9}" by auto
  then show ?thesis by (auto simp: digit_char_def hex_value_def)
qed

lemma digit_char_plain: "d < 10 \<Longrightarrow> digit_char d \<noteq> CHR ''|'' \<and> digit_char d \<noteq> CHR ''-''"
proof -
  assume "d < 10"
  then have "d \<in> {0, 1, 2, 3, 4, 5, 6, 7, 8, 9}" by auto
  then show ?thesis by (auto simp: digit_char_def)
qed

lemma digits_value_snoc:
  "digits_value base (ds @ [c]) = digits_value base ds * base + the (hex_value c)"
  by (simp add: digits_value_def)

lemma digits_value_show_nat: "digits_value 10 (show_nat n) = n"
proof (induction n rule: show_nat.induct)
  case (1 n)
  show ?case
  proof (cases "n < 10")
    case True
    then show ?thesis
      by (subst show_nat.simps) (simp add: digits_value_def digit_char_value)
  next
    case False
    then have "digits_value 10 (show_nat (n div 10)) = n div 10" using 1 by simp
    moreover have "n mod 10 < 10" by simp
    ultimately show ?thesis using False
      by (subst show_nat.simps) (simp add: digits_value_snoc digit_char_value)
  qed
qed

lemma show_nat_inj: "show_nat m = show_nat n \<Longrightarrow> m = n"
  by (metis digits_value_show_nat)

lemma show_nat_chars: "c \<in> set (show_nat n) \<Longrightarrow> c \<noteq> CHR ''|'' \<and> c \<noteq> CHR ''-''"
proof (induction n rule: show_nat.induct)
  case (1 n)
  show ?case
  proof (cases "n < 10")
    case True
    then show ?thesis using 1(2) digit_char_plain[of n]
      by (subst (asm) show_nat.simps) auto
  next
    case False
    have "n mod 10 < 10" by simp
    then show ?thesis using False 1 digit_char_plain[of "n mod 10"]
      by (subst (asm) (2) show_nat.simps) auto
  qed
qed

lemma show_nat_not_Nil: "show_nat n \<noteq> []"
  by (subst show_nat.simps) simp

lemma show_int_no_bar: "CHR ''|'' \<notin> set (show_int i)"
  using show_nat_chars by (auto simp: show_int_def)

lemma show_int_inj: "show_int i = show_int j \<Longrightarrow> i = j"
proof -
  assume e: "show_int i = show_int j"
  have hd: "hd (show_nat n) \<noteq> CHR ''-''" for n
    using show_nat_chars[of "hd (show_nat n)" n] show_nat_not_Nil[of n] by simp
  have neg: "i < 0 \<longleftrightarrow> j < 0"
  proof (rule ccontr)
    assume "\<not> ?thesis"
    then consider "i < 0" "\<not> j < 0" | "\<not> i < 0" "j < 0" by blast
    then show False
    proof cases
      case 1
      then have "CHR ''-'' # show_nat (nat (- i)) = show_nat (nat j)"
        using e by (simp add: show_int_def)
      then have "hd (show_nat (nat j)) = CHR ''-''" by (metis list.sel(1))
      then show False using hd by blast
    next
      case 2
      then have "show_nat (nat i) = CHR ''-'' # show_nat (nat (- j))"
        using e by (simp add: show_int_def)
      then have "hd (show_nat (nat i)) = CHR ''-''" by (metis list.sel(1))
      then show False using hd by blast
    qed
  qed
  show ?thesis
  proof (cases "i < 0")
    case True
    then have "show_nat (nat (- i)) = show_nat (nat (- j))"
      using e neg by (simp add: show_int_def)
    then have "nat (- i) = nat (- j)" by (rule show_nat_inj)
    then show ?thesis using True neg by linarith
  next
    case False
    then have "show_nat (nat i) = show_nat (nat j)"
      using e neg by (simp add: show_int_def)
    then have "nat i = nat j" by (rule show_nat_inj)
    then show ?thesis using False neg by linarith
  qed
qed

lemma text_of_int:
  "\<bar>y\<bar> < 10 ^ 21 \<Longrightarrow> to_string txt (JNum (Fin (of_int y))) = show_int y"
proof -
  assume "\<bar>y\<bar> < 10 ^ 21"
  then have "\<bar>rat_of_int y\<bar> < 10 ^ 21"
    by (metis of_int_abs of_int_less_iff of_int_numeral of_int_power)
  then show ?thesis by (simp add: number_to_string_def)
qed

lemma props_barred_a:
  "get_prop barred_a ''region'' = JStr ''EU|2020''"
  "get_prop barred_a ''resource'' = JStr ''Cereals''"
  "get_prop barred_a ''year'' = JNum (Fin 2021)"
  "to_number (get_prop barred_a ''value'') = Fin 100"
  "to_number (get_prop barred_a ''weight'') = Fin 1"
  by (simp_all add: barred_a_def mk_record_def)

lemma props_barred_b:
  "get_prop barred_b ''region'' = JStr ''EU''"
  "get_prop barred_b ''resource'' = JStr ''Cereals''"
  "get_prop barred_b ''year'' = JNum (Fin 2020)"
  "to_number (get_prop barred_b ''value'') = Fin 200"
  "to_number (get_prop barred_b ''weight'') = Fin 2"
  by (simp_all add: barred_b_def mk_record_def)

lemma retained_barred: "retained barred_a" "retained barred_b"
  "\<not> throws_on barred_a" "\<not> throws_on barred_b"
  by (simp_all add: barred_a_def barred_b_def mk_record_def retained_def requiredFields_def
      numericFields_def)

lemma key_barred:
  "regionYearKey txt barred_a = ''EU|2020|2021''"
  "regionYearKey txt barred_b = ''EU|2020''"
  by (simp_all add: regionYearKey_def props_barred_a props_barred_b text_eval)

text \<open>
  Claim C5. Two valid records are said to land in the same bucket of \<open>byRegionAndYear\<close>
  exactly when their region labels are equal and their years are equal, also when a
  region label contains the separator.

  The composite key is the text of the region, a bar, and the text of the year, and only
  its first two pieces are read back. The region \<^verbatim>\<open>EU|2020\<close> with the year 2021 and the
  region \<^verbatim>\<open>EU\<close> with the year 2020 land in the same bucket, \<^verbatim>\<open>EU\<close> and \<^verbatim>\<open>2020\<close>, and the
  summary of the second record replaces that of the first.
\<close>

theorem composite_key_collision:
  "retained barred_a \<and> retained barred_b \<and>
   get_prop barred_a ''region'' = JStr ''EU|2020'' \<and> get_prop barred_b ''region'' = JStr ''EU'' \<and>
   get_prop barred_a ''year'' = JNum (Fin 2021) \<and> get_prop barred_b ''year'' = JNum (Fin 2020) \<and>
   bucket no_text barred_a = (''EU'', ''2020'') \<and> bucket no_text barred_b = (''EU'', ''2020'') \<and>
   map_sum id byRegionAndYear (calculateStatistics no_text (JArr [barred_a, barred_b])) =
     Inr [(''EU'', [(''2020'', createStatsSummary [Fin 200])])]"
proof -
  have b: "bucket no_text barred_a = (''EU'', ''2020'')" "bucket no_text barred_b = (''EU'', ''2020'')"
    by (simp_all add: bucket_def key_barred split_key_def piece_def)
  have "map_sum id byRegionAndYear (calculateStatistics no_text (JArr [barred_a, barred_b])) =
     Inr [(''EU'', [(''2020'', createStatsSummary [Fin 200])])]"
    by (simp add: batch_outcomes retained_barred performantGroupBy_def key_barred
        store_region_year_def split_key_def piece_def values_of_def props_barred_a props_barred_b
        assign_prop_def inherited_functions_def Let_def)
  then show ?thesis using b retained_barred props_barred_a props_barred_b by simp
qed

subsection \<open>Groups of a string key\<close>

lemma same_value_zero_str: "same_value_zero a (JStr k) \<longleftrightarrow> a = JStr k"
  by (cases a) auto

lemma map_of_map_push:
  "map_of (map_push (JStr k) x G) key =
     (if key = JStr k
      then Some ((case map_of G (JStr k) of Some b \<Rightarrow> b | None \<Rightarrow> []) @ [x])
      else map_of G key)"
  by (induction G) (auto simp: same_value_zero_str)

lemma keys_map_push:
  "map fst (map_push (JStr k) x G) =
     (if JStr k \<in> fst ` set G then map fst G else map fst G @ [JStr k])"
proof (induction G)
  case Nil
  then show ?case by simp
next
  case (Cons e G)
  obtain a b where e: "e = (a, b)" by (cases e)
  show ?case using Cons by (cases "a = JStr k") (simp_all add: e same_value_zero_str)
qed

lemma key_set_map_push:
  "fst ` set (map_push (JStr k) x G) = insert (JStr k) (fst ` set G)"
proof -
  have "set (map fst (map_push (JStr k) x G)) = insert (JStr k) (set (map fst G))"
    unfolding keys_map_push by auto
  then show ?thesis by simp
qed

lemma groups_lookup:
  "map_of (foldl (\<lambda>g item. map_push (JStr (kf item)) item g) G data) (JStr k) =
     (if map_of G (JStr k) = None \<and> filter (\<lambda>x. kf x = k) data = [] then None
      else Some ((case map_of G (JStr k) of Some b \<Rightarrow> b | None \<Rightarrow> []) @
                 filter (\<lambda>x. kf x = k) data))"
proof (induction data arbitrary: G)
  case Nil
  then show ?case by (auto split: option.splits)
next
  case (Cons x data)
  show ?case
    by (simp add: Cons map_of_map_push split: option.splits)
qed

lemma groups_keys:
  "fst ` set (foldl (\<lambda>g item. map_push (JStr (kf item)) item g) G data) =
   fst ` set G \<union> (\<lambda>x. JStr (kf x)) ` set data"
proof (induction data arbitrary: G)
  case Nil
  then show ?case by simp
next
  case (Cons x data)
  show ?case by (simp add: Cons key_set_map_push)
qed

lemma groups_distinct:
  "distinct (map fst G) \<Longrightarrow>
   distinct (map fst (foldl (\<lambda>g item. map_push (JStr (kf item)) item g) G data))"
proof (induction data arbitrary: G)
  case Nil
  then show ?case by simp
next
  case (Cons x data)
  have "distinct (map fst (map_push (JStr (kf x)) x G))"
    using Cons.prems by (simp add: keys_map_push)
  then show ?case using Cons.IH by simp
qed

lemma group_by_distinct:
  "distinct (map fst (performantGroupBy data (\<lambda>item. JStr (kf item))))"
  unfolding performantGroupBy_def by (rule groups_distinct) simp

lemma group_by_lookup:
  "map_of (performantGroupBy data (\<lambda>item. JStr (kf item))) (JStr k) =
     (if filter (\<lambda>x. kf x = k) data = [] then None else Some (filter (\<lambda>x. kf x = k) data))"
  unfolding performantGroupBy_def by (simp add: groups_lookup)

lemma group_by_keys:
  "fst ` set (performantGroupBy data (\<lambda>item. JStr (kf item))) =
   (\<lambda>x. JStr (kf x)) ` set data"
  unfolding performantGroupBy_def by (simp add: groups_keys)

lemma group_by_entry:
  assumes "(key, items) \<in> set (performantGroupBy data (\<lambda>item. JStr (kf item)))"
  shows "\<exists>x \<in> set data. key = JStr (kf x) \<and> items = filter (\<lambda>y. kf y = kf x) data"
proof -
  let ?E = "performantGroupBy data (\<lambda>item. JStr (kf item))"
  have "key \<in> fst ` set ?E" using assms by force
  then obtain x where x: "x \<in> set data" "key = JStr (kf x)"
    unfolding group_by_keys by auto
  have "map_of ?E key = Some items" using group_by_distinct assms by simp
  then have "items = filter (\<lambda>y. kf y = kf x) data"
    using group_by_lookup[of data kf "kf x"] x by (auto split: if_splits)
  then show ?thesis using x by blast
qed

lemma group_by_member:
  assumes "x \<in> set data"
  shows "(JStr (kf x), filter (\<lambda>y. kf y = kf x) data) \<in>
         set (performantGroupBy data (\<lambda>item. JStr (kf item)))"
proof -
  have "filter (\<lambda>y. kf y = kf x) data \<noteq> []" using assms by (auto simp: filter_empty_conv)
  then have "map_of (performantGroupBy data (\<lambda>item. JStr (kf item))) (JStr (kf x)) =
             Some (filter (\<lambda>y. kf y = kf x) data)"
    using group_by_lookup[of data kf "kf x"] by simp
  then show ?thesis by (rule map_of_SomeD)
qed

subsection \<open>Storing the composite groups\<close>

lemma map_of_obj_set:
  "map_of (obj_set name v obj) k = (if k = name then Some v else map_of obj k)"
  by (induction obj) auto

lemma stored_at_obj_set:
  "stored_at (obj_set r (obj_set y s (case map_of own r of Some i \<Rightarrow> i | None \<Rightarrow> [])) own) r' y' =
     (if r' = r \<and> y' = y then Some s else stored_at own r' y')"
  by (auto simp: stored_at_def map_of_obj_set split: option.splits)

lemma store_plain:
  assumes "split_key k = (r, y)" "r \<notin> set (''__proto__'' # inherited_functions)"
    "y \<noteq> ''__proto__''" "ry_polluted st = []"
  shows "store_region_year st (JStr k, items) =
         Inr (st \<lparr> ry_own :=
                obj_set r
                  (obj_set y (createStatsSummary (values_of items))
                     (case map_of (ry_own st) r of Some i \<Rightarrow> i | None \<Rightarrow> []))
                  (ry_own st) \<rparr>)"
  using assms
  by (auto simp: store_region_year_def assign_prop_def Let_def split: option.splits)

text \<open>The names under which an entry of the composite groups is stored.\<close>

lemma store_groups_plain:
  assumes "\<forall>e \<in> set E. \<exists>k r y. fst e = JStr k \<and> split_key k = (r, y) \<and>
             r \<notin> set (''__proto__'' # inherited_functions) \<and> y \<noteq> ''__proto__''"
    and "ry_polluted st = []"
  shows "\<exists>st'. store_groups st E = Inr st' \<and> ry_polluted st' = [] \<and>
           (\<forall>r y. stored_at (ry_own st') r y =
              (case filter (\<lambda>e. \<exists>k. fst e = JStr k \<and> split_key k = (r, y)) E of
                 [] \<Rightarrow> stored_at (ry_own st) r y
               | es \<Rightarrow> Some (createStatsSummary (values_of (snd (last es))))))"
  using assms
proof (induction E arbitrary: st)
  case Nil
  then show ?case by simp
next
  case (Cons e E)
  obtain key items where e: "e = (key, items)" by (cases e)
  from Cons.prems(1) e obtain k r y where
    k: "key = JStr k" "split_key k = (r, y)"
       "r \<notin> set (''__proto__'' # inherited_functions)" "y \<noteq> ''__proto__''"
    by auto
  let ?s = "createStatsSummary (values_of items)"
  let ?st1 = "st \<lparr> ry_own :=
                obj_set r (obj_set y ?s (case map_of (ry_own st) r of Some i \<Rightarrow> i | None \<Rightarrow> []))
                  (ry_own st) \<rparr>"
  have s1: "store_region_year st e = Inr ?st1"
    unfolding e k(1) using k(2,3,4) Cons.prems(2) by (rule store_plain)
  have p1: "ry_polluted ?st1 = []" using Cons.prems(2) by simp
  have a1: "stored_at (ry_own ?st1) r' y' =
            (if r' = r \<and> y' = y then Some ?s else stored_at (ry_own st) r' y')" for r' y'
    by (simp add: stored_at_obj_set)
  have "\<forall>e \<in> set E. \<exists>k r y. fst e = JStr k \<and> split_key k = (r, y) \<and>
             r \<notin> set (''__proto__'' # inherited_functions) \<and> y \<noteq> ''__proto__''"
    using Cons.prems(1) by simp
  from Cons.IH[OF this p1] obtain st' where
    r: "store_groups ?st1 E = Inr st'" "ry_polluted st' = []"
    and l: "\<And>r' y'. stored_at (ry_own st') r' y' =
              (case filter (\<lambda>e. \<exists>k. fst e = JStr k \<and> split_key k = (r', y')) E of
                 [] \<Rightarrow> stored_at (ry_own ?st1) r' y'
               | es \<Rightarrow> Some (createStatsSummary (values_of (snd (last es)))))"
    by blast
  have m: "(\<exists>k'. fst e = JStr k' \<and> split_key k' = (r', y')) \<longleftrightarrow> r' = r \<and> y' = y" for r' y'
    using k by (auto simp: e)
  have "stored_at (ry_own st') r' y' =
              (case filter (\<lambda>e. \<exists>k. fst e = JStr k \<and> split_key k = (r', y')) (e # E) of
                 [] \<Rightarrow> stored_at (ry_own st) r' y'
               | es \<Rightarrow> Some (createStatsSummary (values_of (snd (last es)))))" for r' y'
  proof -
    let ?P = "\<lambda>e. \<exists>k. fst e = JStr k \<and> split_key k = (r', y')"
    show ?thesis
    proof (cases "r' = r \<and> y' = y")
      case True
      then have f: "filter ?P (e # E) = e # filter ?P E" using m[of r' y'] by simp
      show ?thesis
        unfolding l[of r' y'] a1 f using True
        by (cases "filter ?P E") (simp_all add: e)
    next
      case False
      then have f: "filter ?P (e # E) = filter ?P E" using m[of r' y'] by simp
      show ?thesis
        unfolding l[of r' y'] a1 f using False
        by (cases "filter ?P E") auto
    qed
  qed
  then show ?case using s1 r by auto
qed

lemma filter_key_single:
  assumes "distinct (map fst E)" "(key, v) \<in> set E"
  shows "filter (\<lambda>e. fst e = key) E = [(key, v)]"
  using assms
proof (induction E)
  case Nil
  then show ?case by simp
next
  case (Cons e E)
  show ?case
  proof (cases "e = (key, v)")
    case True
    then have "\<forall>e' \<in> set E. fst e' \<noteq> key" using Cons.prems(1) by force
    then have "filter (\<lambda>e. fst e = key) E = []" by (auto simp: filter_empty_conv)
    then show ?thesis using True by simp
  next
    case False
    then have in_E: "(key, v) \<in> set E" using Cons.prems(2) by simp
    then have "key \<in> fst ` set E" by force
    then have "fst e \<noteq> key" using Cons.prems(1) by auto
    then show ?thesis using Cons.IH in_E Cons.prems(1) by simp
  qed
qed

lemma plain_split:
  "plain_names txt c \<Longrightarrow>
   split_key (regionYearKey txt c) =
     (to_string txt (get_prop c ''region''), to_string txt (get_prop c ''year''))"
  using bucket_plain[of "txt" c] by (simp add: plain_names_def bucket_def)

lemma plain_key_eq:
  assumes "plain_names txt c" "plain_names txt a"
  shows "regionYearKey txt c = regionYearKey txt a \<longleftrightarrow>
         to_string txt (get_prop c ''region'') = to_string txt (get_prop a ''region'') \<and>
         to_string txt (get_prop c ''year'') = to_string txt (get_prop a ''year'')"
proof
  assume "regionYearKey txt c = regionYearKey txt a"
  then have "split_key (regionYearKey txt c) = split_key (regionYearKey txt a)" by simp
  then show "to_string txt (get_prop c ''region'') = to_string txt (get_prop a ''region'') \<and>
         to_string txt (get_prop c ''year'') = to_string txt (get_prop a ''year'')"
    using assms by (simp add: plain_split)
next
  assume "to_string txt (get_prop c ''region'') = to_string txt (get_prop a ''region'') \<and>
         to_string txt (get_prop c ''year'') = to_string txt (get_prop a ''year'')"
  then show "regionYearKey txt c = regionYearKey txt a" by (simp add: regionYearKey_def)
qed

lemma batch_region_year:
  assumes res: "calculateStatistics txt (JArr xs) = Inr res"
    and plain: "\<forall>c \<in> set xs. retained c \<longrightarrow> plain_names txt c"
    and a: "a \<in> set xs" "retained a"
  shows "stored_at (byRegionAndYear res) (to_string txt (get_prop a ''region''))
           (to_string txt (get_prop a ''year'')) =
         Some (createStatsSummary (values_of
           (filter (\<lambda>c. to_string txt (get_prop c ''region'') = to_string txt (get_prop a ''region'') \<and>
                        to_string txt (get_prop c ''year'') = to_string txt (get_prop a ''year''))
              (filter retained xs))))"
proof -
  let ?data = "filter retained xs"
  let ?kf = "regionYearKey txt"
  let ?E = "performantGroupBy ?data (\<lambda>item. JStr (?kf item))"
  let ?R = "\<lambda>c. to_string txt (get_prop c ''region'')"
  let ?Y = "\<lambda>c. to_string txt (get_prop c ''year'')"
  from res obtain st where
    st: "store_groups \<lparr> ry_own = [], ry_polluted = [] \<rparr> ?E = Inr st"
    and own: "byRegionAndYear res = ry_own st"
    by (auto simp: batch_outcomes split: if_splits sum.splits)
  have pd: "plain_names txt c" if "c \<in> set ?data" for c using that plain by simp
  have ad: "a \<in> set ?data" using a by simp
  have entries: "\<forall>e \<in> set ?E. \<exists>k r y. fst e = JStr k \<and> split_key k = (r, y) \<and>
             r \<notin> set (''__proto__'' # inherited_functions) \<and> y \<noteq> ''__proto__''"
  proof
    fix e assume "e \<in> set ?E"
    then have "(fst e, snd e) \<in> set ?E" by simp
    from group_by_entry[OF this] obtain x where
      x: "x \<in> set ?data" "fst e = JStr (?kf x)" by blast
    have "split_key (?kf x) = (?R x, ?Y x)" using pd[OF x(1)] by (rule plain_split)
    moreover have "?R x \<notin> set (''__proto__'' # inherited_functions)" "?Y x \<noteq> ''__proto__''"
      using pd[OF x(1)] by (simp_all add: plain_names_def)
    ultimately show "\<exists>k r y. fst e = JStr k \<and> split_key k = (r, y) \<and>
             r \<notin> set (''__proto__'' # inherited_functions) \<and> y \<noteq> ''__proto__''"
      using x(2) by blast
  qed
  from store_groups_plain[OF entries, of "\<lparr> ry_own = [], ry_polluted = [] \<rparr>"] st
  have look: "stored_at (ry_own st) r y =
              (case filter (\<lambda>e. \<exists>k. fst e = JStr k \<and> split_key k = (r, y)) ?E of
                 [] \<Rightarrow> stored_at [] r y
               | es \<Rightarrow> Some (createStatsSummary (values_of (snd (last es)))))" for r y
    by (auto split: list.splits)
  have f1: "filter (\<lambda>e. \<exists>k. fst e = JStr k \<and> split_key k = (?R a, ?Y a)) ?E =
            filter (\<lambda>e. fst e = JStr (?kf a)) ?E"
  proof (rule filter_cong[OF refl])
    fix e assume "e \<in> set ?E"
    then have "(fst e, snd e) \<in> set ?E" by simp
    from group_by_entry[OF this] obtain x where
      x: "x \<in> set ?data" "fst e = JStr (?kf x)" by blast
    have "split_key (?kf x) = (?R a, ?Y a) \<longleftrightarrow> ?kf x = ?kf a"
      using plain_key_eq[OF pd[OF x(1)] pd[OF ad]] plain_split[OF pd[OF x(1)]] by simp
    then show "(\<exists>k. fst e = JStr k \<and> split_key k = (?R a, ?Y a)) \<longleftrightarrow> fst e = JStr (?kf a)"
      using x(2) by simp
  qed
  have f2: "filter (\<lambda>e. fst e = JStr (?kf a)) ?E =
            [(JStr (?kf a), filter (\<lambda>y. ?kf y = ?kf a) ?data)]"
    using group_by_distinct group_by_member[OF ad] by (rule filter_key_single)
  have f3: "filter (\<lambda>y. ?kf y = ?kf a) ?data = filter (\<lambda>c. ?R c = ?R a \<and> ?Y c = ?Y a) ?data"
    by (rule filter_cong[OF refl]) (rule plain_key_eq[OF pd pd[OF ad]])
  show ?thesis
    unfolding own look[of "?R a" "?Y a"] f1 f2 f3 by simp
qed

text \<open>
  Claim C5, amended. In the result of a batch call on records whose valid ones have plain
  names (the texts of region and year contain no bar, and are not names that every object
  inherits), the entry of \<open>byRegionAndYear\<close> under the region and the year of a valid
  record, as texts, is the summary of exactly the valid records with the same text of
  the region and the same text of the year: two valid records land in the same bucket
  exactly when these texts are equal. For region labels that are strings and years that
  are integers below \<open>10^21\<close> in magnitude the texts are equal exactly when the labels are
  equal and the years are equal.
\<close>

theorem region_year_buckets:
  "(calculateStatistics txt (JArr xs) = Inr res \<and>
    (\<forall>c \<in> set xs. retained c \<longrightarrow> plain_names txt c) \<and> a \<in> set xs \<and> retained a \<longrightarrow>
      stored_at (byRegionAndYear res) (to_string txt (get_prop a ''region''))
        (to_string txt (get_prop a ''year'')) =
      Some (createStatsSummary (values_of
        (filter (\<lambda>c. to_string txt (get_prop c ''region'') = to_string txt (get_prop a ''region'') \<and>
                     to_string txt (get_prop c ''year'') = to_string txt (get_prop a ''year''))
           (filter retained xs)))) \<and>
      (\<forall>c \<in> set xs. retained c \<longrightarrow>
         bucket txt c = (to_string txt (get_prop c ''region''), to_string txt (get_prop c ''year'')))) \<and>
   (get_prop a ''region'' = JStr ra \<and> get_prop a ''year'' = JNum (Fin (of_int ya)) \<and>
    \<bar>ya\<bar> < 10 ^ 21 \<and>
    get_prop b ''region'' = JStr rb \<and> get_prop b ''year'' = JNum (Fin (of_int yb)) \<and>
    \<bar>yb\<bar> < 10 ^ 21 \<longrightarrow>
      (to_string txt (get_prop b ''region'') = to_string txt (get_prop a ''region'') \<and>
       to_string txt (get_prop b ''year'') = to_string txt (get_prop a ''year'') \<longleftrightarrow>
       rb = ra \<and> yb = ya))"
proof (intro conjI impI)
  assume h: "calculateStatistics txt (JArr xs) = Inr res \<and>
    (\<forall>c \<in> set xs. retained c \<longrightarrow> plain_names txt c) \<and> a \<in> set xs \<and> retained a"
  then show "stored_at (byRegionAndYear res) (to_string txt (get_prop a ''region''))
        (to_string txt (get_prop a ''year'')) =
      Some (createStatsSummary (values_of
        (filter (\<lambda>c. to_string txt (get_prop c ''region'') = to_string txt (get_prop a ''region'') \<and>
                     to_string txt (get_prop c ''year'') = to_string txt (get_prop a ''year''))
           (filter retained xs))))"
    using batch_region_year[of "txt" xs res a] by blast
  show "\<forall>c \<in> set xs. retained c \<longrightarrow>
         bucket txt c = (to_string txt (get_prop c ''region''), to_string txt (get_prop c ''year''))"
    using h by (auto simp: bucket_def plain_split)
next
  assume h: "get_prop a ''region'' = JStr ra \<and> get_prop a ''year'' = JNum (Fin (of_int ya)) \<and>
    \<bar>ya\<bar> < 10 ^ 21 \<and>
    get_prop b ''region'' = JStr rb \<and> get_prop b ''year'' = JNum (Fin (of_int yb)) \<and>
    \<bar>yb\<bar> < 10 ^ 21"
  have ta: "to_string txt (get_prop a ''year'') = show_int ya"
    using h by (simp only: text_of_int)
  have tb: "to_string txt (get_prop b ''year'') = show_int yb"
    using h by (simp only: text_of_int)
  show "to_string txt (get_prop b ''region'') = to_string txt (get_prop a ''region'') \<and>
       to_string txt (get_prop b ''year'') = to_string txt (get_prop a ''year'') \<longleftrightarrow>
       rb = ra \<and> yb = ya"
    unfolding ta tb using h show_int_inj by auto
qed

lemma plain_examples:
  "plain_names no_text coerced_a" "plain_names no_text coerced_b" "plain_names no_text barred_b"
  by (simp_all add: plain_names_def props_a props_b props_barred_b text_eval
      inherited_functions_def)

lemma calc_three:
  "calculateStatistics txt (JArr [coerced_a, coerced_b, barred_b]) =
     Inr \<lparr> byRegion = [(''Asia'', createStatsSummary [Fin 0, Fin 10]),
                       (''EU'', createStatsSummary [Fin 200])],
           byRegionAndYear =
             [(''Asia'', [(''2020'', createStatsSummary [Fin 0, Fin 10])]),
              (''EU'', [(''2020'', createStatsSummary [Fin 200])])],
           byResource = [(''Cereals'', createStatsSummary [Fin 0, Fin 10, Fin 200])],
           globalWeight = weight_stats [Fin 1, Fin 0, Fin 2] \<rparr>"
  by (simp add: batch_outcomes retained_ab retained_barred performantGroupBy_def value_groups_def
      props_a props_b props_barred_b values_of_def weights_of_def summarize_groups_def
      regionYearKey_def store_region_year_def split_key_def piece_def
      assign_prop_def inherited_functions_def Let_def text_eval)

theorem region_year_buckets_witness:
  "(\<exists>res. calculateStatistics no_text (JArr [coerced_a, coerced_b, barred_b]) = Inr res \<and>
      stored_at (byRegionAndYear res) ''Asia'' ''2020'' =
        Some (createStatsSummary [Fin 0, Fin 10]) \<and>
      stored_at (byRegionAndYear res) ''EU'' ''2020'' = Some (createStatsSummary [Fin 200])) \<and>
   plain_names no_text coerced_a \<and> plain_names no_text coerced_b \<and>
   plain_names no_text barred_b \<and>
   retained coerced_a \<and> retained coerced_b \<and> retained barred_b \<and>
   bucket no_text coerced_a = (''Asia'', ''2020'') \<and>
   bucket no_text coerced_b = (''Asia'', ''2020'') \<and>
   bucket no_text barred_b = (''EU'', ''2020'') \<and>
   get_prop coerced_b ''region'' = JStr ''Asia'' \<and>
   get_prop coerced_b ''year'' = JNum (Fin (of_int 2020)) \<and>
   get_prop barred_b ''region'' = JStr ''EU'' \<and>
   get_prop barred_b ''year'' = JNum (Fin (of_int 2020)) \<and>
   to_string no_text (get_prop barred_b ''region'') \<noteq>
     to_string no_text (get_prop coerced_b ''region'')"
proof -
  let ?xs = "[coerced_a, coerced_b, barred_b]"
  obtain res where res: "calculateStatistics no_text (JArr ?xs) = Inr res"
    using calc_three[of no_text] by blast
  have pl: "\<forall>c \<in> set ?xs. retained c \<longrightarrow> plain_names no_text c"
    using plain_examples by simp
  have ra: "get_prop coerced_a ''region'' = JStr ''Asia''"
    "get_prop coerced_a ''year'' = JStr ''2020''"
    by (simp_all add: props_a)
  have rb: "get_prop coerced_b ''region'' = JStr ''Asia''"
    "get_prop coerced_b ''year'' = JNum (Fin (of_int 2020))"
    by (simp_all add: props_b)
  have rc: "get_prop barred_b ''region'' = JStr ''EU''"
    "get_prop barred_b ''year'' = JNum (Fin (of_int 2020))"
    by (simp_all add: props_barred_b)
  have tx: "number_to_string no_text (Fin 2020) = ''2020''" by (simp add: text_eval)
  note tb = region_year_buckets[of no_text ?xs res coerced_b "''Asia''" 2020 barred_b "''EU''" 2020]
  note tc = region_year_buckets[of no_text ?xs res barred_b "''EU''" 2020 coerced_b "''Asia''" 2020]
  have mb: "coerced_b \<in> set ?xs" "barred_b \<in> set ?xs" by simp_all
  have 1: "stored_at (byRegionAndYear res) (to_string no_text (get_prop coerced_b ''region''))
        (to_string no_text (get_prop coerced_b ''year'')) =
      Some (createStatsSummary (values_of
        (filter (\<lambda>c. to_string no_text (get_prop c ''region'') =
                       to_string no_text (get_prop coerced_b ''region'') \<and>
                     to_string no_text (get_prop c ''year'') =
                       to_string no_text (get_prop coerced_b ''year''))
           (filter retained ?xs))))"
    using tb res pl mb(1) retained_ab(2) by blast
  have 2: "stored_at (byRegionAndYear res) (to_string no_text (get_prop barred_b ''region''))
        (to_string no_text (get_prop barred_b ''year'')) =
      Some (createStatsSummary (values_of
        (filter (\<lambda>c. to_string no_text (get_prop c ''region'') =
                       to_string no_text (get_prop barred_b ''region'') \<and>
                     to_string no_text (get_prop c ''year'') =
                       to_string no_text (get_prop barred_b ''year''))
           (filter retained ?xs))))"
    using tc res pl mb(2) retained_barred(2) by blast
  have 3: "\<forall>c \<in> set ?xs. retained c \<longrightarrow>
         bucket no_text c =
           (to_string no_text (get_prop c ''region''), to_string no_text (get_prop c ''year''))"
    using tb res pl mb(1) retained_ab(2) by blast
  have s1: "stored_at (byRegionAndYear res) ''Asia'' ''2020'' =
            Some (createStatsSummary [Fin 0, Fin 10])"
    using 1 by (simp add: props_a props_b props_barred_b tx retained_ab retained_barred
        values_of_def)
  have s2: "stored_at (byRegionAndYear res) ''EU'' ''2020'' = Some (createStatsSummary [Fin 200])"
    using 2 by (simp add: props_a props_b props_barred_b tx retained_ab retained_barred
        values_of_def)
  have b: "bucket no_text coerced_a = (''Asia'', ''2020'')"
    "bucket no_text coerced_b = (''Asia'', ''2020'')"
    "bucket no_text barred_b = (''EU'', ''2020'')"
    using 3 retained_ab retained_barred
    by (simp_all add: props_a props_b props_barred_b tx)
  have "(to_string no_text (get_prop barred_b ''region'') =
           to_string no_text (get_prop coerced_b ''region'') \<and>
         to_string no_text (get_prop barred_b ''year'') =
           to_string no_text (get_prop coerced_b ''year'')) \<longleftrightarrow>
        ''EU'' = ''Asia'' \<and> (2020 :: int) = 2020"
    using tb rb rc by simp
  then have d: "to_string no_text (get_prop barred_b ''region'') \<noteq>
     to_string no_text (get_prop coerced_b ''region'')"
    by (simp add: props_b props_barred_b)
  show ?thesis
    using res s1 s2 plain_examples retained_ab(1,2) retained_barred(2) b rb rc d by blast
qed

text \<open>
  A region named like an inherited method is read as that method: nothing is stored for
  it in the breakdown by region and year, while the breakdown by region holds it.
\<close>

lemma inherited_region_example:
  "calculateStatistics txt
     (JArr [mk_record (JStr ''1'') (JStr ''constructor'') (JStr ''__proto__'') (JNum (Fin 2020))
              (JNum (Fin 5)) (JNum (Fin 1))]) =
     Inr \<lparr> byRegion = [(''constructor'', createStatsSummary [Fin 5])],
           byRegionAndYear = [],
           byResource = [],
           globalWeight = weight_stats [Fin 1] \<rparr>"
  by (simp add: batch_outcomes mk_record_def retained_def requiredFields_def numericFields_def
      performantGroupBy_def value_groups_def values_of_def weights_of_def summarize_groups_def
      regionYearKey_def store_region_year_def split_key_def piece_def
      assign_prop_def inherited_functions_def unwritable_function_props_def Let_def text_eval)

end
